theory Spec2Isabelle
  imports Complex_Main "HOL-Library.AList" "HOL-Library.Word"
begin

section \<open>Session management (personaplex\_server/server.py)\<close>

text \<open>
  Timestamps (\<^verbatim>\<open>datetime.now()\<close>, \<^verbatim>\<open>time.time()\<close>) are points on the real line, in
  seconds; each operation below takes the clock reading \<open>now\<close> as an argument, one
  reading for the whole operation (the operations run under the lock and do not wait in
  between). The identifier drawn from \<^verbatim>\<open>uuid.uuid4()\<close> is an argument as well; where a
  statement needs the identifier to be new, it says so. A Python \<^verbatim>\<open>dict\<close> is an
  association list in insertion order: \<^verbatim>\<open>d[k] = v\<close> is \<^const>\<open>AList.update\<close> (replace in
  place, or append), \<^verbatim>\<open>del d[k]\<close> is \<^const>\<open>AList.delete\<close>, \<^verbatim>\<open>d.get(k)\<close> is
  \<^const>\<open>map_of\<close>.
\<close>

datatype error = HTTPException int string | ValidationError | OverflowError | Fault string

text \<open>
  Values of type \<^verbatim>\<open>Any\<close> that arrive in request bodies and control frames are JSON values;
  a \<^verbatim>\<open>Dict[str, Any]\<close> is the list of its items.
\<close>

datatype json =
    JNull
  | JBool bool
  | JInt int
  | JFloat real
  | JStr string
  | JArr "json list"
  | JObj "(string \<times> json) list"

text \<open>\<^verbatim>\<open>d.get(k, default)\<close>\<close>

definition dict_get :: "('k \<times> 'v) list \<Rightarrow> 'k \<Rightarrow> 'v \<Rightarrow> 'v" where
  "dict_get d k dflt = (case map_of d k of Some v \<Rightarrow> v | None \<Rightarrow> dflt)"

text \<open>A transcript entry: the dictionary with the keys \<^verbatim>\<open>speaker\<close>, \<^verbatim>\<open>text\<close>, \<^verbatim>\<open>timestamp\<close>.\<close>

record turn =
  speaker :: json
  turn_text :: json
  timestamp :: real

record VoiceSession =
  session_id :: string
  persona :: string
  created_at :: real
  transcript :: "turn list"
  audio_chunks_in :: int
  audio_chunks_out :: int
  is_active :: bool
  last_activity :: real

record SessionManager =
  sessions :: "(string \<times> VoiceSession) list"
  max_sessions :: int

record SessionSummary =
  summary_session_id :: string
  summary_persona :: string
  duration_seconds :: real
  turn_count :: int
  summary_transcript :: "turn list"
  summary_audio_chunks_in :: int
  summary_audio_chunks_out :: int

definition SessionManager_init :: "int \<Rightarrow> SessionManager" where
  "SessionManager_init n = \<lparr>sessions = [], max_sessions = n\<rparr>"

text \<open>The dataclass constructor as \<^verbatim>\<open>create\<close> calls it: the remaining fields take their defaults.\<close>

definition new_VoiceSession :: "string \<Rightarrow> string \<Rightarrow> real \<Rightarrow> VoiceSession" where
  "new_VoiceSession sid p now =
     \<lparr>session_id = sid, persona = p, created_at = now, transcript = [],
      audio_chunks_in = 0, audio_chunks_out = 0, is_active = True, last_activity = now\<rparr>"

text \<open>\<^verbatim>\<open>sum(1 for s in self.sessions.values() if s.is_active)\<close>\<close>

definition active_count :: "SessionManager \<Rightarrow> int" where
  "active_count sm = sum_list (map (\<lambda>s. 1) (filter is_active (map snd (sessions sm))))"

text \<open>
  \<^verbatim>\<open>create\<close> returns the raised exception or the new session, together with the manager
  after the call.
\<close>

definition SessionManager_create ::
  "SessionManager \<Rightarrow> string \<Rightarrow> string \<Rightarrow> real \<Rightarrow> (error + VoiceSession) \<times> SessionManager" where
  "SessionManager_create sm p uuid now =
     (let active = sum_list (map (\<lambda>s. 1) (filter is_active (map snd (sessions sm))))
      in if active \<ge> max_sessions sm
         then (Inl (HTTPException 503 ''Server at capacity''), sm)
         else (let session = new_VoiceSession uuid p now
               in (Inr session,
                   sm\<lparr>sessions := AList.update (session_id session) session (sessions sm)\<rparr>)))"

definition SessionManager_get :: "SessionManager \<Rightarrow> string \<Rightarrow> VoiceSession option" where
  "SessionManager_get sm sid = map_of (sessions sm) sid"

text \<open>\<^verbatim>\<open>d.pop(k, None)\<close>: the value found, if any, and the dictionary without the key.\<close>

definition dict_pop :: "'k \<Rightarrow> ('k \<times> 'v) list \<Rightarrow> 'v option \<times> ('k \<times> 'v) list" where
  "dict_pop k d = (map_of d k, AList.delete k d)"

text \<open>
  \<^verbatim>\<open>end\<close> returns the summary (or \<open>None\<close>), and the manager after the call. The session
  object it popped is mutated (\<^verbatim>\<open>session.is_active = False\<close>) and stays visible to whoever
  holds a handle on it; that object is the second component of the result.
\<close>

definition SessionManager_end ::
  "SessionManager \<Rightarrow> string \<Rightarrow> real \<Rightarrow> SessionSummary option \<times> VoiceSession option \<times> SessionManager" where
  "SessionManager_end sm sid now =
     (let (popped, rest) = dict_pop sid (sessions sm);
          sm' = sm\<lparr>sessions := rest\<rparr>
      in case popped of
           None \<Rightarrow> (None, None, sm')
         | Some session0 \<Rightarrow>
             (let session = session0\<lparr>is_active := False\<rparr>;
                  duration = now - created_at session;
                  summary = \<lparr>summary_session_id = sid,
                             summary_persona = persona session,
                             duration_seconds = duration,
                             turn_count = int (length (transcript session)),
                             summary_transcript = transcript session,
                             summary_audio_chunks_in = audio_chunks_in session,
                             summary_audio_chunks_out = audio_chunks_out session\<rparr>
              in (Some summary, Some session, sm')))"

definition SessionManager_cleanup_stale ::
  "SessionManager \<Rightarrow> int \<Rightarrow> real \<Rightarrow> int \<times> SessionManager" where
  "SessionManager_cleanup_stale sm timeout_sec now =
     (let stale = map fst (filter (\<lambda>(sid, s). now - last_activity s > real_of_int timeout_sec)
                                  (sessions sm));
          sm' = sm\<lparr>sessions := fold AList.delete stale (sessions sm)\<rparr>
      in (int (length stale), sm'))"

text \<open>Sequences of calls on one manager.\<close>

datatype sm_call =
    Create string string real
  | Get string
  | End string real
  | CleanupStale int real

fun sm_step :: "sm_call \<Rightarrow> SessionManager \<Rightarrow> SessionManager" where
  "sm_step (Create p uuid now) sm = snd (SessionManager_create sm p uuid now)"
| "sm_step (Get sid) sm = sm"
| "sm_step (End sid now) sm = snd (snd (SessionManager_end sm sid now))"
| "sm_step (CleanupStale t now) sm = snd (SessionManager_cleanup_stale sm t now)"

definition sm_run :: "sm_call list \<Rightarrow> SessionManager \<Rightarrow> SessionManager" where
  "sm_run calls sm = fold sm_step calls sm"

text \<open>The invariant of the registry: every registered session is active.\<close>

definition all_active :: "SessionManager \<Rightarrow> bool" where
  "all_active sm \<longleftrightarrow> list_all (\<lambda>kv. is_active (snd kv)) (sessions sm)"

subsection \<open>The text inference endpoint\<close>

record InferRequest =
  request_text :: string
  request_persona :: string
  request_language :: string

record InferResult =
  intent :: string
  confidence :: real
  response_text :: string
  latency_ms :: real

record InferResponse =
  response_session_id :: string
  response_intent :: string
  response_confidence :: real
  response_response_text :: string
  response_latency_ms :: real

text \<open>
  A handle on a registered session is the session object itself: a mutation through the
  handle is a mutation of the registry's entry.
\<close>

definition mutate_session ::
  "string \<Rightarrow> (VoiceSession \<Rightarrow> VoiceSession) \<Rightarrow> SessionManager \<Rightarrow> SessionManager" where
  "mutate_session sid f sm = sm\<lparr>sessions := AList.map_entry sid f (sessions sm)\<rparr>"

definition transcript_append :: "turn \<Rightarrow> VoiceSession \<Rightarrow> VoiceSession" where
  "transcript_append t s = s\<lparr>transcript := transcript s @ [t]\<rparr>"

text \<open>
  \<^verbatim>\<open>text_inference\<close>. The inference step \<^verbatim>\<open>model_manager.infer_text\<close> is the opaque
  capability of the system: its outcome, a fault it raises or the result it returns, is the
  argument \<open>outcome\<close>. \<open>clock k\<close> is the \<open>k\<close>-th clock reading of the call, and \<open>loaded\<close> is
  \<^verbatim>\<open>model_manager.loaded\<close>. The \<^verbatim>\<open>finally\<close> block runs on both branches of the \<^verbatim>\<open>try\<close>.
\<close>

definition text_inference ::
  "bool \<Rightarrow> SessionManager \<Rightarrow> InferRequest \<Rightarrow> string \<Rightarrow> (nat \<Rightarrow> real) \<Rightarrow> error + InferResult
     \<Rightarrow> (error + InferResponse) \<times> SessionManager" where
  "text_inference loaded sm request uuid clock outcome =
     (if \<not> loaded then (Inl (HTTPException 503 ''Model not ready''), sm)
      else case SessionManager_create sm (request_persona request) uuid (clock 0) of
          (Inl e, sm1) \<Rightarrow> (Inl e, sm1)
        | (Inr session, sm1) \<Rightarrow>
            (case outcome of
               Inl e \<Rightarrow>
                 (let (_, _, sm2) = SessionManager_end sm1 (session_id session) (clock 1)
                  in (Inl e, sm2))
             | Inr result \<Rightarrow>
                 (let sm2 = mutate_session (session_id session)
                              (transcript_append
                                 \<lparr>speaker = JStr ''user'', turn_text = JStr (request_text request),
                                  timestamp = clock 1\<rparr>) sm1;
                      sm3 = mutate_session (session_id session)
                              (transcript_append
                                 \<lparr>speaker = JStr ''assistant'',
                                  turn_text = JStr (response_text result),
                                  timestamp = clock 2\<rparr>) sm2;
                      response = \<lparr>response_session_id = session_id session,
                                  response_intent = intent result,
                                  response_confidence = confidence result,
                                  response_response_text = response_text result,
                                  response_latency_ms = latency_ms result\<rparr>;
                      (_, _, sm4) = SessionManager_end sm3 (session_id session) (clock 3)
                  in (Inr response, sm4))))"

subsection \<open>The main loop of the WebSocket endpoint\<close>

definition MAX_AUDIO_CHUNK_SIZE :: int where
  "MAX_AUDIO_CHUNK_SIZE = 32000"

definition process_audio ::
  "8 word list \<Rightarrow> VoiceSession \<Rightarrow> real \<Rightarrow> 8 word list option \<times> VoiceSession" where
  "process_audio audio_chunk session now =
     (None, session\<lparr>audio_chunks_in := audio_chunks_in session + 1, last_activity := now\<rparr>)"

text \<open>Frames the endpoint sends from its main loop.\<close>

datatype ws_frame =
    AudioFrame "8 word list"
  | TranscriptAck
  | TimeoutWarning

text \<open>
  What one \<^verbatim>\<open>await asyncio.wait_for(websocket.receive(), ...)\<close> yields: a message carrying
  bytes, a message carrying text (given by the value \<^verbatim>\<open>json.loads\<close> returns for it, \<open>None\<close>
  when it raises), a \<^verbatim>\<open>websocket.receive\<close> message with neither key, a disconnect message,
  a message of another type, or the timeout of the wait.
\<close>

datatype ws_event =
    ReceiveBytes "8 word list"
  | ReceiveText "json option"
  | ReceiveEmpty
  | Disconnect
  | OtherMessage
  | TimeoutError

datatype flow = Continue | Break | Raise error

record ws_conn =
  conn_session :: VoiceSession
  conn_sent :: "ws_frame list"

text \<open>One iteration of \<^verbatim>\<open>while True\<close>, at clock reading \<open>now\<close>.\<close>

fun ws_iteration :: "real \<Rightarrow> ws_event \<Rightarrow> ws_conn \<Rightarrow> flow \<times> ws_conn" where
  "ws_iteration now (ReceiveBytes audio_chunk) c =
     (if int (length audio_chunk) > MAX_AUDIO_CHUNK_SIZE then (Continue, c)
      else (let (response_audio, session) = process_audio audio_chunk (conn_session c) now
            in case response_audio of
                 None \<Rightarrow> (Continue, c\<lparr>conn_session := session\<rparr>)
               | Some audio \<Rightarrow>
                   if audio = [] then (Continue, c\<lparr>conn_session := session\<rparr>)
                   else (Continue,
                         c\<lparr>conn_session := session\<lparr>audio_chunks_out := audio_chunks_out session + 1\<rparr>,
                           conn_sent := conn_sent c @ [AudioFrame audio]\<rparr>)))"
| "ws_iteration now (ReceiveText None) c = (Raise (Fault ''JSONDecodeError''), c)"
| "ws_iteration now (ReceiveText (Some (JObj data))) c =
     (let action = map_of data ''action''
      in if action = Some (JStr ''transcript'')
         then (Continue,
               c\<lparr>conn_session := transcript_append
                    \<lparr>speaker = dict_get data ''speaker'' (JStr ''user''),
                     turn_text = dict_get data ''text'' (JStr []),
                     timestamp = now\<rparr> (conn_session c),
                 conn_sent := conn_sent c @ [TranscriptAck]\<rparr>)
         else if action = Some (JStr ''end'') then (Break, c)
         else (Continue, c))"
| "ws_iteration now (ReceiveText (Some v)) c = (Raise (Fault ''AttributeError''), c)"
| "ws_iteration now ReceiveEmpty c = (Continue, c)"
| "ws_iteration now Disconnect c = (Break, c)"
| "ws_iteration now OtherMessage c = (Continue, c)"
| "ws_iteration now TimeoutError c = (Break, c\<lparr>conn_sent := conn_sent c @ [TimeoutWarning]\<rparr>)"

text \<open>
  The loop over the events that have arrived so far, each with the clock reading of its
  iteration: \<open>Continue\<close> says that the loop is still waiting for the next event.
\<close>

fun ws_loop :: "(real \<times> ws_event) list \<Rightarrow> ws_conn \<Rightarrow> flow \<times> ws_conn" where
  "ws_loop [] c = (Continue, c)"
| "ws_loop ((now, ev) # evs) c =
     (case ws_iteration now ev c of
        (Continue, c') \<Rightarrow> ws_loop evs c'
      | (fl, c') \<Rightarrow> (fl, c'))"

section \<open>Context store (personaplex\_server/context\_api.py)\<close>

record ContextPayload =
  payload_session_id :: string
  payload_type :: string
  payload_data :: "(string \<times> json) list"
  payload_priority :: string
  ttl_seconds :: "int option"
  payload_source :: string

text \<open>
  The schema check of \<^verbatim>\<open>ContextPayload(...)\<close>: \<^verbatim>\<open>type\<close>, \<^verbatim>\<open>priority\<close> and \<^verbatim>\<open>source\<close> are
  declared \<^verbatim>\<open>str\<close> and \<^verbatim>\<open>data\<close> is declared \<^verbatim>\<open>Dict[str, Any]\<close>; a value of another kind
  is refused with a validation error.
\<close>

fun ContextPayload_init ::
  "string \<Rightarrow> json \<Rightarrow> json \<Rightarrow> json \<Rightarrow> int option \<Rightarrow> json \<Rightarrow> error + ContextPayload" where
  "ContextPayload_init sid (JStr ty) (JObj d) (JStr pr) t (JStr src) =
     Inr \<lparr>payload_session_id = sid, payload_type = ty, payload_data = d,
          payload_priority = pr, ttl_seconds = t, payload_source = src\<rparr>"
| "ContextPayload_init sid ty d pr t src = Inl ValidationError"

record ContextEntry =
  entry_id :: string
  entry_session_id :: string
  entry_type :: string
  entry_data :: "(string \<times> json) list"
  entry_priority :: string
  entry_source :: string
  entry_created_at :: real
  ttl :: int
  accessed_count :: int

definition ContextEntry_init :: "ContextPayload \<Rightarrow> int \<Rightarrow> string \<Rightarrow> real \<Rightarrow> ContextEntry" where
  "ContextEntry_init payload t uuid now =
     \<lparr>entry_id = uuid, entry_session_id = payload_session_id payload,
      entry_type = payload_type payload, entry_data = payload_data payload,
      entry_priority = payload_priority payload, entry_source = payload_source payload,
      entry_created_at = now, ttl = t, accessed_count = 0\<rparr>"

definition is_expired :: "real \<Rightarrow> ContextEntry \<Rightarrow> bool" where
  "is_expired now e \<longleftrightarrow> now - entry_created_at e > real_of_int (ttl e)"

text \<open>The dictionary \<^verbatim>\<open>to_dict\<close> builds.\<close>

record ContextDict =
  dict_id :: string
  dict_type :: string
  dict_data :: "(string \<times> json) list"
  dict_priority :: string
  dict_source :: string
  dict_created_at :: real
  ttl_remaining :: real
  dict_accessed_count :: int

text \<open>
  When an \<^verbatim>\<open>int\<close> meets a \<^verbatim>\<open>float\<close> in an arithmetic operation, Python converts the
  integer to a float and raises \<^verbatim>\<open>OverflowError\<close> when it rounds beyond the largest finite
  double, which happens from \<open>2 ^ 1024 - 2 ^ 970\<close> on in absolute value. Comparisons between
  an \<^verbatim>\<open>int\<close> and a \<^verbatim>\<open>float\<close>, as in \<^verbatim>\<open>is_expired\<close>, are exact and never raise. The
  rounding of the integers that do fit is not modelled.
\<close>

definition float_overflow :: "int \<Rightarrow> bool" where
  "float_overflow n \<longleftrightarrow> \<bar>n\<bar> \<ge> 2 ^ 1024 - 2 ^ 970"

text \<open>
  \<^verbatim>\<open>to_dict\<close>: the subtraction \<^verbatim>\<open>self.ttl - (time.time() - self.created_at)\<close> converts the
  time to live to a float, so the call raises for a time to live that does not fit one.
\<close>

definition to_dict :: "real \<Rightarrow> ContextEntry \<Rightarrow> error + ContextDict" where
  "to_dict now e =
     (if float_overflow (ttl e) then Inl OverflowError
      else Inr \<lparr>dict_id = entry_id e, dict_type = entry_type e, dict_data = entry_data e,
                dict_priority = entry_priority e, dict_source = entry_source e,
                dict_created_at = entry_created_at e,
                ttl_remaining = max 0 (real_of_int (ttl e) - (now - entry_created_at e)),
                dict_accessed_count = accessed_count e\<rparr>)"

record EventPayload =
  event_session_id :: string
  event :: string
  event_data :: "(string \<times> json) list option"
  customer_phone :: "string option"
  customer_name :: "string option"
  agent_id :: "string option"

record Event =
  logged_event :: string
  logged_timestamp :: real
  logged_data :: "(string \<times> json) list"
  logged_customer_phone :: "string option"
  logged_customer_name :: "string option"
  logged_agent_id :: "string option"

record ContextStore =
  store :: "(string \<times> ContextEntry list) list"
  events :: "(string \<times> Event list) list"

definition ContextStore_init :: ContextStore where
  "ContextStore_init = \<lparr>store = [], events = []\<rparr>"

text \<open>
  \<^verbatim>\<open>payload.ttl_seconds or default_ttl\<close>: Python's \<^verbatim>\<open>or\<close> yields its right operand when the
  left one is \<^verbatim>\<open>None\<close> or \<^verbatim>\<open>0\<close>.
\<close>

definition add_context ::
  "ContextStore \<Rightarrow> ContextPayload \<Rightarrow> int \<Rightarrow> string \<Rightarrow> real \<Rightarrow> ContextEntry \<times> ContextStore" where
  "add_context cs payload default_ttl uuid now =
     (let t = (case ttl_seconds payload of
                 None \<Rightarrow> default_ttl
               | Some v \<Rightarrow> if v = 0 then default_ttl else v);
          entry = ContextEntry_init payload t uuid now;
          s1 = (if map_of (store cs) (payload_session_id payload) = None
                then AList.update (payload_session_id payload) [] (store cs)
                else store cs);
          s2 = AList.map_entry (payload_session_id payload) (\<lambda>es. es @ [entry]) s1
      in (entry, cs\<lparr>store := s2\<rparr>))"

text \<open>\<^verbatim>\<open>priority_order.get(x["priority"], 2)\<close>\<close>

definition priority_order :: "(string \<times> nat) list" where
  "priority_order = [(''urgent'', 0), (''high'', 1), (''normal'', 2)]"

definition priority_key :: "ContextDict \<Rightarrow> nat" where
  "priority_key x = dict_get priority_order (dict_priority x) 2"

text \<open>
  The \<^verbatim>\<open>for entry in entries\<close> loop of \<^verbatim>\<open>get_context\<close>: the dictionaries appended to
  \<^verbatim>\<open>result\<close>, or the exception that ends the loop, and the entries as the loop leaves
  them. The loop increments the access counter of an entry in place and then calls
  \<^verbatim>\<open>to_dict\<close>: when that call raises, the entries before it and the entry itself keep their
  incremented counters, the entries after it are untouched, and there is no result.
\<close>

fun get_context_loop ::
  "string list option \<Rightarrow> bool \<Rightarrow> real \<Rightarrow> ContextEntry list
     \<Rightarrow> (error + ContextDict list) \<times> ContextEntry list" where
  "get_context_loop types include_expired now [] = (Inr [], [])"
| "get_context_loop types include_expired now (entry # entries) =
     (if \<not> include_expired \<and> is_expired now entry
      then (let (result, entries') = get_context_loop types include_expired now entries
            in (result, entry # entries'))
      else if (case types of None \<Rightarrow> False
               | Some ts \<Rightarrow> ts \<noteq> [] \<and> entry_type entry \<notin> set ts)
      then (let (result, entries') = get_context_loop types include_expired now entries
            in (result, entry # entries'))
      else (let entry' = entry\<lparr>accessed_count := accessed_count entry + 1\<rparr>
            in case to_dict now entry' of
                 Inl err \<Rightarrow> (Inl err, entry' # entries)
               | Inr d \<Rightarrow>
                   (let (result, entries') = get_context_loop types include_expired now entries
                    in (case result of Inl err \<Rightarrow> Inl err | Inr ds \<Rightarrow> Inr (d # ds),
                        entry' # entries'))))"

text \<open>
  \<^verbatim>\<open>result.sort(key=...)\<close> is Python's stable sort; \<^const>\<open>sort_key\<close> is the stable sort
  of the list library. The call returns the sorted list, or raises what the loop raised; the
  store is as the loop left it in both cases.
\<close>

definition get_context ::
  "ContextStore \<Rightarrow> string \<Rightarrow> string list option \<Rightarrow> bool \<Rightarrow> real
     \<Rightarrow> (error + ContextDict list) \<times> ContextStore" where
  "get_context cs sid types include_expired now =
     (let entries = dict_get (store cs) sid [];
          (result, entries') = get_context_loop types include_expired now entries;
          s' = AList.map_entry sid (\<lambda>_. entries') (store cs)
      in (case result of Inl err \<Rightarrow> Inl err | Inr ds \<Rightarrow> Inr (sort_key priority_key ds),
          cs\<lparr>store := s'\<rparr>))"


definition add_event :: "ContextStore \<Rightarrow> EventPayload \<Rightarrow> real \<Rightarrow> ContextStore" where
  "add_event cs payload now =
     (let ev1 = (if map_of (events cs) (event_session_id payload) = None
                 then AList.update (event_session_id payload) [] (events cs)
                 else events cs);
          logged = \<lparr>logged_event = event payload, logged_timestamp = now,
                    logged_data = (case event_data payload of None \<Rightarrow> []
                                   | Some d \<Rightarrow> d),
                    logged_customer_phone = customer_phone payload,
                    logged_customer_name = customer_name payload,
                    logged_agent_id = agent_id payload\<rparr>
      in cs\<lparr>events := AList.map_entry (event_session_id payload) (\<lambda>es. es @ [logged]) ev1\<rparr>)"

definition get_events :: "ContextStore \<Rightarrow> string \<Rightarrow> Event list" where
  "get_events cs sid = dict_get (events cs) sid []"


text \<open>
  The first loop of \<^verbatim>\<open>cleanup_expired\<close>, over the items of the store: the store, the
  count \<^verbatim>\<open>cleaned\<close> and the list \<^verbatim>\<open>empty_sessions\<close> as the loop leaves them.
\<close>

fun cleanup_expired_loop ::
  "real \<Rightarrow> (string \<times> ContextEntry list) list
     \<Rightarrow> (string \<times> ContextEntry list) list \<Rightarrow> int \<Rightarrow> string list
     \<Rightarrow> (string \<times> ContextEntry list) list \<times> int \<times> string list" where
  "cleanup_expired_loop now [] s cleaned empty_sessions = (s, cleaned, empty_sessions)"
| "cleanup_expired_loop now ((sid, entries) # items) s cleaned empty_sessions =
     (let before = int (length entries);
          kept = filter (\<lambda>e. \<not> is_expired now e) entries;
          s' = AList.update sid kept s;
          cleaned' = cleaned + (before - int (length kept))
      in cleanup_expired_loop now items s' cleaned'
           (if kept = [] then empty_sessions @ [sid] else empty_sessions))"

definition cleanup_expired :: "ContextStore \<Rightarrow> real \<Rightarrow> int \<times> ContextStore" where
  "cleanup_expired cs now =
     (let (s, cleaned, empty_sessions) = cleanup_expired_loop now (store cs) (store cs) 0 []
      in (cleaned, cs\<lparr>store := fold AList.delete empty_sessions s\<rparr>))"

subsection \<open>Bulk injection\<close>

record BulkResponse =
  bulk_status :: string
  bulk_session_id :: string
  injected_count :: int
  bulk_items :: "(string \<times> string) list"

text \<open>The statement \<^verbatim>\<open>ctx = ContextPayload(...)\<close> of the loop of \<^verbatim>\<open>receive_bulk_context\<close>.\<close>

definition bulk_item_payload :: "string \<Rightarrow> (string \<times> json) list \<Rightarrow> error + ContextPayload" where
  "bulk_item_payload sid item =
     ContextPayload_init sid
       (dict_get item ''type'' (JStr ''custom''))
       (dict_get item ''data'' (JObj []))
       (dict_get item ''priority'' (JStr ''normal''))
       None
       (dict_get item ''source'' (JStr ''n8n''))"

text \<open>
  The loop of \<^verbatim>\<open>receive_bulk_context\<close>. Each item comes with the identifier and the clock
  reading that its \<^verbatim>\<open>add_context\<close> call draws. An exception leaves the loop with the store
  as the earlier iterations left it.
\<close>

fun receive_bulk_loop ::
  "string \<Rightarrow> int \<Rightarrow> ((string \<times> json) list \<times> string \<times> real) list \<Rightarrow> ContextStore
     \<Rightarrow> (string \<times> string) list \<Rightarrow> (error + (string \<times> string) list) \<times> ContextStore" where
  "receive_bulk_loop sid default_ttl [] cs results = (Inr results, cs)"
| "receive_bulk_loop sid default_ttl ((item, uuid, now) # items) cs results =
     (case bulk_item_payload sid item of
        Inl e \<Rightarrow> (Inl e, cs)
      | Inr ctx \<Rightarrow>
          (let (entry, cs') = add_context cs ctx default_ttl uuid now
           in receive_bulk_loop sid default_ttl items cs'
                (results @ [(entry_id entry, payload_type ctx)])))"

definition receive_bulk_context ::
  "ContextStore \<Rightarrow> int \<Rightarrow> string \<Rightarrow> ((string \<times> json) list \<times> string \<times> real) list
     \<Rightarrow> (error + BulkResponse) \<times> ContextStore" where
  "receive_bulk_context cs default_ttl sid items =
     (case receive_bulk_loop sid default_ttl items cs [] of
        (Inl e, cs') \<Rightarrow> (Inl e, cs')
      | (Inr results, cs') \<Rightarrow>
          (Inr \<lparr>bulk_status = ''accepted'', bulk_session_id = sid,
                injected_count = int (length results), bulk_items = results\<rparr>, cs'))"

subsection \<open>Notions used in the statements about the store\<close>

text \<open>
  An entry passes the two \<^verbatim>\<open>continue\<close> guards of the loop of \<^verbatim>\<open>get_context\<close>;
  the effect of \<^verbatim>\<open>entry.accessed_count += 1\<close>; the list
  \<^verbatim>\<open>[e for e in entries if not e.is_expired]\<close>; and the entries at which the loop of
  \<^verbatim>\<open>get_context\<close> arrives at \<^verbatim>\<open>entry.accessed_count += 1\<close>, which are the entries passing
  the guards up to and including the first one at which \<^verbatim>\<open>to_dict\<close> raises.
\<close>

definition selected :: "string list option \<Rightarrow> bool \<Rightarrow> real \<Rightarrow> ContextEntry \<Rightarrow> bool" where
  "selected types include_expired now e \<longleftrightarrow>
     (include_expired \<or> now - entry_created_at e \<le> real_of_int (ttl e))
     \<and> (case types of None \<Rightarrow> True | Some ts \<Rightarrow> ts = [] \<or> entry_type e \<in> set ts)"

definition accessed :: "ContextEntry \<Rightarrow> ContextEntry" where
  "accessed e = e\<lparr>accessed_count := accessed_count e + 1\<rparr>"

definition unexpired :: "real \<Rightarrow> ContextEntry list \<Rightarrow> ContextEntry list" where
  "unexpired now es = filter (\<lambda>e. \<not> is_expired now e) es"


text \<open>No entry that passes the guards makes \<^verbatim>\<open>to_dict\<close> raise: the loop runs to its end.\<close>

definition loop_completes ::
  "string list option \<Rightarrow> bool \<Rightarrow> real \<Rightarrow> ContextEntry list \<Rightarrow> bool" where
  "loop_completes types include_expired now es \<longleftrightarrow>
     list_all (\<lambda>e. selected types include_expired now e \<longrightarrow> \<not> float_overflow (ttl e)) es"

text \<open>\<^verbatim>\<open>self._store.get(session_id, [])\<close>\<close>

definition bucket :: "ContextStore \<Rightarrow> string \<Rightarrow> ContextEntry list" where
  "bucket cs sid = dict_get (store cs) sid []"

subsection \<open>Sequences of calls on one store\<close>







subsection \<open>Sample data\<close>

text \<open>
  A store with one session holding, in insertion order, a \<^verbatim>\<open>high\<close> invoice that lives
  for 60 seconds, an \<^verbatim>\<open>urgent\<close> appointment, a \<^verbatim>\<open>normal\<close> history entry and a second
  \<^verbatim>\<open>urgent\<close> entry, all created at time 0.
\<close>

definition sample_entry :: "string \<Rightarrow> string \<Rightarrow> string \<Rightarrow> int \<Rightarrow> ContextEntry" where
  "sample_entry eid ty pr t =
     \<lparr>entry_id = eid, entry_session_id = ''s'', entry_type = ty, entry_data = [],
      entry_priority = pr, entry_source = ''n8n'', entry_created_at = 0, ttl = t,
      accessed_count = 0\<rparr>"

definition sample_store :: ContextStore where
  "sample_store =
     \<lparr>store = [(''s'', [sample_entry ''e1'' ''invoice'' ''high'' 60,
                        sample_entry ''e2'' ''appointment'' ''urgent'' 1800,
                        sample_entry ''e3'' ''customer_history'' ''normal'' 1800,
                        sample_entry ''e4'' ''custom'' ''urgent'' 1800])],
      events = []\<rparr>"

text \<open>
  A payload for the session of the sample store, and a bulk request of three items of which
  the second has no \<^verbatim>\<open>type\<close> key, each with the identifier and clock reading of its
  \<^verbatim>\<open>add_context\<close> call.
\<close>

definition sample_payload :: "string \<Rightarrow> string \<Rightarrow> int option \<Rightarrow> ContextPayload" where
  "sample_payload ty pr t =
     \<lparr>payload_session_id = ''s'', payload_type = ty, payload_data = [],
      payload_priority = pr, ttl_seconds = t, payload_source = ''n8n''\<rparr>"

definition sample_items :: "((string \<times> json) list \<times> string \<times> real) list" where
  "sample_items =
     [([(''type'', JStr ''invoice''), (''priority'', JStr ''high'')], ''e1'', 0),
      ([(''data'', JObj [(''note'', JStr ''no type'')])], ''e2'', 1),
      ([(''type'', JStr ''appointment'')], ''e3'', 2)]"

text \<open>A bulk request whose second item has a number where the type should be.\<close>

definition sample_items_invalid :: "((string \<times> json) list \<times> string \<times> real) list" where
  "sample_items_invalid =
     [([(''type'', JStr ''invoice'')], ''e1'', 0),
      ([(''type'', JInt 5)], ''e2'', 1),
      ([(''type'', JStr ''appointment'')], ''e3'', 2)]"

section \<open>Facts about the registry\<close>

lemma active_count_length:
  "active_count sm = int (length (filter (\<lambda>kv. is_active (snd kv)) (sessions sm)))"
  by (simp add: active_count_def filter_map comp_def sum_list_triv)

lemma update_fresh_append:
  "k \<notin> fst ` set al \<Longrightarrow> AList.update k v al = al @ [(k, v)]"
  by (induction al) auto

lemma count_update_le:
  "length (filter (\<lambda>kv. is_active (snd kv)) (AList.update k v al))
     \<le> Suc (length (filter (\<lambda>kv. is_active (snd kv)) al))"
  by (induction al) auto

lemma count_delete_le:
  "length (filter P (AList.delete k al)) \<le> length (filter P al)"
  by (induction al) auto

lemma count_fold_delete_le:
  "length (filter P (fold AList.delete ks al)) \<le> length (filter P al)"
proof (induction ks arbitrary: al)
  case Nil
  show ?case by simp
next
  case (Cons k ks)
  have "length (filter P (fold AList.delete ks (AList.delete k al)))
          \<le> length (filter P (AList.delete k al))"
    by (rule Cons.IH)
  also have "\<dots> \<le> length (filter P al)"
    by (rule count_delete_le)
  finally show ?case by simp
qed

lemma create_max_sessions:
  "max_sessions (snd (SessionManager_create sm p uuid now)) = max_sessions sm"
  by (simp add: SessionManager_create_def Let_def)

lemma end_max_sessions:
  "max_sessions (snd (snd (SessionManager_end sm sid now))) = max_sessions sm"
  by (simp add: SessionManager_end_def dict_pop_def Let_def split: option.splits)

lemma cleanup_max_sessions:
  "max_sessions (snd (SessionManager_cleanup_stale sm t now)) = max_sessions sm"
  by (simp add: SessionManager_cleanup_stale_def Let_def)

lemma sm_step_max_sessions: "max_sessions (sm_step c sm) = max_sessions sm"
  by (cases c) (simp_all add: create_max_sessions end_max_sessions cleanup_max_sessions)

lemma sm_run_max_sessions: "max_sessions (sm_run cs sm) = max_sessions sm"
  unfolding sm_run_def
  by (induction cs arbitrary: sm) (simp_all add: sm_step_max_sessions)

lemma create_bounded:
  assumes "active_count sm \<le> max_sessions sm"
  shows "active_count (snd (SessionManager_create sm p uuid now)) \<le> max_sessions sm"
proof (cases "active_count sm \<ge> max_sessions sm")
  case True
  then show ?thesis
    using assms by (simp add: SessionManager_create_def active_count_def)
next
  case False
  then have lt: "active_count sm < max_sessions sm" by simp
  have "active_count (snd (SessionManager_create sm p uuid now))
          \<le> active_count sm + 1"
    using False count_update_le [of uuid "new_VoiceSession uuid p now" "sessions sm"]
    by (simp add: SessionManager_create_def active_count_length Let_def new_VoiceSession_def)
  with lt show ?thesis by simp
qed

lemma end_bounded:
  "active_count (snd (snd (SessionManager_end sm sid now))) \<le> active_count sm"
  by (simp add: SessionManager_end_def dict_pop_def Let_def active_count_length count_delete_le
           split: option.splits)

lemma cleanup_bounded:
  "active_count (snd (SessionManager_cleanup_stale sm t now)) \<le> active_count sm"
  by (simp add: SessionManager_cleanup_stale_def Let_def active_count_length count_fold_delete_le)

lemma sm_step_bounded:
  assumes "active_count sm \<le> max_sessions sm"
  shows "active_count (sm_step c sm) \<le> max_sessions sm"
proof (cases c)
  case (Create p uuid now)
  then show ?thesis using create_bounded [OF assms] by simp
next
  case (Get sid)
  then show ?thesis using assms by simp
next
  case (End sid now)
  then show ?thesis using end_bounded [of sm sid now] assms by simp
next
  case (CleanupStale t now)
  then show ?thesis using cleanup_bounded [of sm t now] assms by simp
qed

lemma sm_run_bounded:
  "active_count sm \<le> max_sessions sm \<Longrightarrow> active_count (sm_run cs sm) \<le> max_sessions sm"
  unfolding sm_run_def
proof (induction cs arbitrary: sm)
  case Nil
  then show ?case by simp
next
  case (Cons c cs)
  have "active_count (sm_step c sm) \<le> max_sessions (sm_step c sm)"
    using sm_step_bounded [OF Cons.prems] by (simp add: sm_step_max_sessions)
  from Cons.IH [OF this] show ?case by (simp add: sm_step_max_sessions)
qed

lemma create_fails_iff:
  "isl (fst (SessionManager_create sm p uuid now)) \<longleftrightarrow> active_count sm \<ge> max_sessions sm"
  by (simp add: SessionManager_create_def active_count_def Let_def)

lemma create_rejected:
  "active_count sm \<ge> max_sessions sm \<Longrightarrow>
     SessionManager_create sm p uuid now = (Inl (HTTPException 503 ''Server at capacity''), sm)"
  by (simp add: SessionManager_create_def active_count_def Let_def)

lemma create_admitted:
  assumes "active_count sm < max_sessions sm" and "uuid \<notin> fst ` set (sessions sm)"
  shows "SessionManager_create sm p uuid now =
           (Inr (new_VoiceSession uuid p now),
            sm\<lparr>sessions := sessions sm @ [(uuid, new_VoiceSession uuid p now)]\<rparr>)"
    and "active_count (snd (SessionManager_create sm p uuid now)) = active_count sm + 1"
proof -
  have sid: "session_id (new_VoiceSession uuid p now) = uuid"
    by (simp add: new_VoiceSession_def)
  show c: "SessionManager_create sm p uuid now =
           (Inr (new_VoiceSession uuid p now),
            sm\<lparr>sessions := sessions sm @ [(uuid, new_VoiceSession uuid p now)]\<rparr>)"
    using assms
    by (simp add: SessionManager_create_def active_count_def Let_def sid update_fresh_append)
  show "active_count (snd (SessionManager_create sm p uuid now)) = active_count sm + 1"
    by (simp add: c active_count_length new_VoiceSession_def)
qed

section \<open>Admission control\<close>

text \<open>
  Claim C1, as the code has it. \<^verbatim>\<open>create\<close> fails, with the 503 "Server at capacity"
  exception, exactly when the number of active sessions has reached the configured maximum;
  a failing call leaves the manager (registry and active count) as it was; a successful
  call, whose fresh identifier is not yet a key of the registry, registers exactly one new
  session, the one it returns, and raises the active count by one; and from the empty
  manager with a non-negative maximum, no sequence of \<^verbatim>\<open>create\<close>, \<^verbatim>\<open>get\<close>, \<^verbatim>\<open>end\<close> and
  \<^verbatim>\<open>cleanup_stale\<close> calls takes the active count above the maximum.
\<close>

theorem create_admission_control:
  "(isl (fst (SessionManager_create sm p uuid now)) \<longleftrightarrow> active_count sm \<ge> max_sessions sm)
   \<and> (active_count sm \<ge> max_sessions sm \<longrightarrow>
        SessionManager_create sm p uuid now = (Inl (HTTPException 503 ''Server at capacity''), sm))
   \<and> (active_count sm < max_sessions sm \<and> uuid \<notin> fst ` set (sessions sm) \<longrightarrow>
        (\<exists>s. SessionManager_create sm p uuid now = (Inr s, sm\<lparr>sessions := sessions sm @ [(uuid, s)]\<rparr>)
             \<and> session_id s = uuid \<and> persona s = p \<and> is_active s)
        \<and> active_count (snd (SessionManager_create sm p uuid now)) = active_count sm + 1)
   \<and> (0 \<le> n \<longrightarrow> active_count (sm_run calls (SessionManager_init n)) \<le> n)"
proof (intro conjI impI)
  show "isl (fst (SessionManager_create sm p uuid now)) \<longleftrightarrow> active_count sm \<ge> max_sessions sm"
    by (rule create_fails_iff)
next
  assume "active_count sm \<ge> max_sessions sm"
  then show "SessionManager_create sm p uuid now = (Inl (HTTPException 503 ''Server at capacity''), sm)"
    by (rule create_rejected)
next
  assume a: "active_count sm < max_sessions sm \<and> uuid \<notin> fst ` set (sessions sm)"
  then show "\<exists>s. SessionManager_create sm p uuid now = (Inr s, sm\<lparr>sessions := sessions sm @ [(uuid, s)]\<rparr>)
             \<and> session_id s = uuid \<and> persona s = p \<and> is_active s"
    using create_admitted(1) [of sm uuid p now] by (simp add: new_VoiceSession_def)
  from a show "active_count (snd (SessionManager_create sm p uuid now)) = active_count sm + 1"
    using create_admitted(2) [of sm uuid p now] by simp
next
  assume "0 \<le> n"
  then have "active_count (SessionManager_init n) \<le> max_sessions (SessionManager_init n)"
    by (simp add: SessionManager_init_def active_count_def)
  from sm_run_bounded [OF this] show "active_count (sm_run calls (SessionManager_init n)) \<le> n"
    by (simp add: SessionManager_init_def)
qed

theorem create_admission_control_witness:
  "active_count (SessionManager_init 1) < max_sessions (SessionManager_init 1)
   \<and> ''a'' \<notin> fst ` set (sessions (SessionManager_init 1))
   \<and> active_count (snd (SessionManager_create (SessionManager_init 1) ''support'' ''a'' 0)) = 1
   \<and> active_count \<lparr>sessions = [(''a'', new_VoiceSession ''a'' ''support'' 0)], max_sessions = 1\<rparr>
        \<ge> max_sessions \<lparr>sessions = [(''a'', new_VoiceSession ''a'' ''support'' 0)], max_sessions = 1\<rparr>
   \<and> SessionManager_create
        \<lparr>sessions = [(''a'', new_VoiceSession ''a'' ''support'' 0)], max_sessions = 1\<rparr> ''sales'' ''b'' 5
       = (Inl (HTTPException 503 ''Server at capacity''),
          \<lparr>sessions = [(''a'', new_VoiceSession ''a'' ''support'' 0)], max_sessions = 1\<rparr>)
   \<and> (0::int) \<le> 1
   \<and> active_count (sm_run [Create ''support'' ''a'' 0, Create ''sales'' ''b'' 5, End ''a'' 9]
                      (SessionManager_init 1)) \<le> 1"
  using create_admission_control [where sm = "SessionManager_init 1" and p = "''support''"
          and uuid = "''a''" and now = 0 and n = 1
          and calls = "[Create ''support'' ''a'' 0, Create ''sales'' ''b'' 5, End ''a'' 9]"]
        create_admission_control [where sm = "\<lparr>sessions = [(''a'', new_VoiceSession ''a'' ''support'' 0)], max_sessions = 1\<rparr>"
          and p = "''sales''" and uuid = "''b''" and now = 5 and n = 1 and calls = "[]"]
  by (simp add: SessionManager_init_def active_count_def new_VoiceSession_def)

text \<open>
  Claim C1, as stated, fails for a negative maximum, which the code accepts: the empty
  manager configured with a maximum of \<open>-1\<close> has an active count of 0, above its maximum,
  before any call.
\<close>

theorem negative_maximum_exceeded:
  "\<not> active_count (sm_run [] (SessionManager_init (- 1))) \<le> - 1"
  by (simp add: sm_run_def SessionManager_init_def active_count_def)

section \<open>Ending a session\<close>

lemma map_entry_fresh_append:
  "k \<notin> fst ` set al \<Longrightarrow> AList.map_entry k f (al @ [(k, v)]) = al @ [(k, f v)]"
  by (induction al) auto

lemma delete_fresh_append:
  "k \<notin> fst ` set al \<Longrightarrow> AList.delete k (al @ [(k, v)]) = al"
  by (induction al) auto

lemma map_of_fold_map_entry:
  "map_of (fold (\<lambda>t. AList.map_entry k (f t)) ts al) k
     = map_option (fold f ts) (map_of al k)"
proof (induction ts arbitrary: al)
  case Nil
  show ?case by (simp add: option.map_ident)
next
  case (Cons t ts)
  show ?case
    by (simp add: Cons.IH map_of_map_entry option.map_comp comp_def split: option.splits)
qed

lemma sessions_fold_mutate:
  "sessions (fold (\<lambda>t. mutate_session sid (f t)) ts sm)
     = fold (\<lambda>t. AList.map_entry sid (f t)) ts (sessions sm)"
  by (induction ts arbitrary: sm) (simp_all add: mutate_session_def)

lemma length_fold_transcript_append:
  "length (transcript (fold transcript_append ts s)) = length (transcript s) + length ts"
  by (induction ts arbitrary: s) (simp_all add: transcript_append_def)

lemma end_registered:
  assumes "map_of (sessions sm) sid = Some s"
  shows "SessionManager_end sm sid now =
           (Some \<lparr>summary_session_id = sid, summary_persona = persona s,
                  duration_seconds = now - created_at s,
                  turn_count = int (length (transcript s)),
                  summary_transcript = transcript s,
                  summary_audio_chunks_in = audio_chunks_in s,
                  summary_audio_chunks_out = audio_chunks_out s\<rparr>,
            Some (s\<lparr>is_active := False\<rparr>),
            sm\<lparr>sessions := AList.delete sid (sessions sm)\<rparr>)"
  using assms by (simp add: SessionManager_end_def dict_pop_def Let_def)

lemma end_absent:
  assumes "map_of (sessions sm) sid = None"
  shows "SessionManager_end sm sid now = (None, None, sm)"
proof -
  have "sid \<notin> fst ` set (sessions sm)"
    using assms by (simp add: map_of_eq_None_iff)
  then have "AList.delete sid (sessions sm) = sessions sm"
    by simp
  with assms show ?thesis
    by (simp add: SessionManager_end_def dict_pop_def Let_def)
qed

lemma map_of_delete_same: "map_of (AList.delete k al) k = None"
  by (simp add: delete_conv')

text \<open>
  Claim C2. For a registered session, the first \<^verbatim>\<open>end\<close> call removes it from the registry
  and returns a summary whose duration is \<open>now - created_at\<close> and whose turn count is the
  length of the transcript, which is the number of turns already there plus the number of
  turns appended through the handle before the call; a later \<^verbatim>\<open>end\<close> call for the same
  identifier returns \<open>None\<close> and leaves the manager as it is.
\<close>

theorem end_first_then_absent:
  "map_of (sessions sm) sid = Some s \<longrightarrow>
     (\<exists>summary ended sm'.
        SessionManager_end sm sid now = (Some summary, Some ended, sm')
        \<and> duration_seconds summary = now - created_at s
        \<and> turn_count summary = int (length (transcript s))
        \<and> summary_transcript summary = transcript s
        \<and> sessions sm' = AList.delete sid (sessions sm)
        \<and> SessionManager_get sm' sid = None
        \<and> SessionManager_end sm' sid now' = (None, None, sm'))
     \<and> (\<exists>summary.
          fst (SessionManager_end
                 (fold (\<lambda>t. mutate_session sid (transcript_append t)) turns sm) sid now)
            = Some summary
          \<and> turn_count summary = int (length (transcript s)) + int (length turns))"
proof (intro impI conjI)
  assume reg: "map_of (sessions sm) sid = Some s"
  let ?sm' = "sm\<lparr>sessions := AList.delete sid (sessions sm)\<rparr>"
  have gone: "map_of (sessions ?sm') sid = None"
    by (simp add: map_of_delete_same)
  show "\<exists>summary ended sm'.
        SessionManager_end sm sid now = (Some summary, Some ended, sm')
        \<and> duration_seconds summary = now - created_at s
        \<and> turn_count summary = int (length (transcript s))
        \<and> summary_transcript summary = transcript s
        \<and> sessions sm' = AList.delete sid (sessions sm)
        \<and> SessionManager_get sm' sid = None
        \<and> SessionManager_end sm' sid now' = (None, None, sm')"
    using end_registered [OF reg, of now] end_absent [OF gone, of now'] gone
    by (simp add: SessionManager_get_def)
  let ?sm2 = "fold (\<lambda>t. mutate_session sid (transcript_append t)) turns sm"
  have "map_of (sessions ?sm2) sid = Some (fold transcript_append turns s)"
    by (simp add: sessions_fold_mutate map_of_fold_map_entry reg)
  from end_registered [OF this, of now]
  show "\<exists>summary. fst (SessionManager_end ?sm2 sid now) = Some summary
          \<and> turn_count summary = int (length (transcript s)) + int (length turns)"
    by (simp add: length_fold_transcript_append)
qed

theorem end_first_then_absent_witness:
  "map_of (sessions \<lparr>sessions = [(''a'', new_VoiceSession ''a'' ''support'' 3)], max_sessions = 4\<rparr>) ''a''
     = Some (new_VoiceSession ''a'' ''support'' 3)
   \<and> map_option duration_seconds
        (fst (SessionManager_end
           \<lparr>sessions = [(''a'', new_VoiceSession ''a'' ''support'' 3)], max_sessions = 4\<rparr> ''a'' 12))
       = Some 9
   \<and> SessionManager_end
        (snd (snd (SessionManager_end
           \<lparr>sessions = [(''a'', new_VoiceSession ''a'' ''support'' 3)], max_sessions = 4\<rparr> ''a'' 12)))
        ''a'' 13
       = (None, None, \<lparr>sessions = [], max_sessions = 4\<rparr>)
   \<and> map_option turn_count
        (fst (SessionManager_end
               (fold (\<lambda>t. mutate_session ''a'' (transcript_append t))
                  [\<lparr>speaker = JStr ''user'', turn_text = JStr ''x'', timestamp = 4\<rparr>,
                   \<lparr>speaker = JStr ''assistant'', turn_text = JStr ''y'', timestamp = 5\<rparr>]
                  \<lparr>sessions = [(''a'', new_VoiceSession ''a'' ''support'' 3)], max_sessions = 4\<rparr>)
               ''a'' 12))
       = Some 2"
  using end_first_then_absent
          [where sm = "\<lparr>sessions = [(''a'', new_VoiceSession ''a'' ''support'' 3)], max_sessions = 4\<rparr>"
             and sid = "''a''" and s = "new_VoiceSession ''a'' ''support'' 3" and now = 12
             and now' = 13
             and turns = "[\<lparr>speaker = JStr ''user'', turn_text = JStr ''x'', timestamp = 4\<rparr>,
                          \<lparr>speaker = JStr ''assistant'', turn_text = JStr ''y'', timestamp = 5\<rparr>]"]
  by (simp add: new_VoiceSession_def SessionManager_end_def dict_pop_def mutate_session_def
        transcript_append_def)

section \<open>Registered sessions are active\<close>

lemma set_update_subset: "set (AList.update k v al) \<subseteq> insert (k, v) (set al)"
  by (induction al) auto

lemma set_delete_subset: "set (AList.delete k al) \<subseteq> set al"
  by (auto simp: AList.delete_eq)

lemma set_fold_delete_subset: "set (fold AList.delete ks al) \<subseteq> set al"
proof (induction ks arbitrary: al)
  case Nil
  show ?case by simp
next
  case (Cons k ks)
  have "set (fold AList.delete ks (AList.delete k al)) \<subseteq> set (AList.delete k al)"
    by (rule Cons.IH)
  with set_delete_subset [of k al] show ?case by auto
qed

lemma all_active_step: "all_active sm \<Longrightarrow> all_active (sm_step c sm)"
proof (cases c)
  case (Create p uuid now)
  assume "all_active sm"
  then show ?thesis
    using Create set_update_subset [of uuid "new_VoiceSession uuid p now" "sessions sm"]
    by (auto simp: all_active_def list_all_iff SessionManager_create_def Let_def
          new_VoiceSession_def)
next
  case (Get sid)
  assume "all_active sm"
  then show ?thesis using Get by simp
next
  case (End sid now)
  assume "all_active sm"
  then show ?thesis
    using End set_delete_subset [of sid "sessions sm"]
    by (auto simp: all_active_def list_all_iff SessionManager_end_def dict_pop_def Let_def
          split: option.splits)
next
  case (CleanupStale t now)
  assume "all_active sm"
  then show ?thesis
    using CleanupStale
      set_fold_delete_subset [of "map fst (filter (\<lambda>(sid, s). now - last_activity s > real_of_int t)
                                  (sessions sm))" "sessions sm"]
    by (auto simp: all_active_def list_all_iff SessionManager_cleanup_stale_def Let_def)
qed

lemma all_active_run: "all_active sm \<Longrightarrow> all_active (sm_run cs sm)"
  unfolding sm_run_def
  by (induction cs arbitrary: sm) (simp_all add: all_active_step)

lemma all_active_count: "all_active sm \<Longrightarrow> active_count sm = int (length (sessions sm))"
  by (simp add: all_active_def active_count_length list_all_iff)

text \<open>
  Claim C9. Every session in the registry is active: the property holds of the empty
  manager and \<^verbatim>\<open>create\<close>, \<^verbatim>\<open>get\<close>, \<^verbatim>\<open>end\<close> and \<^verbatim>\<open>cleanup_stale\<close> keep it, so that after any
  sequence of these calls the active count is the number of registered sessions; and the
  session that \<^verbatim>\<open>end\<close> marks inactive is the one it has just removed from the registry.
\<close>

theorem registry_sessions_active:
  "(all_active sm \<longrightarrow> all_active (sm_run calls sm))
   \<and> all_active (sm_run calls (SessionManager_init n))
   \<and> active_count (sm_run calls (SessionManager_init n))
       = int (length (sessions (sm_run calls (SessionManager_init n))))
   \<and> (SessionManager_end sm sid now = (summary, Some ended, sm') \<longrightarrow>
        \<not> is_active ended \<and> SessionManager_get sm' sid = None
        \<and> sessions sm' = AList.delete sid (sessions sm))"
proof (intro conjI impI)
  assume "all_active sm"
  then show "all_active (sm_run calls sm)" by (rule all_active_run)
next
  have init: "all_active (SessionManager_init n)"
    by (simp add: all_active_def SessionManager_init_def)
  from all_active_run [OF init] show run: "all_active (sm_run calls (SessionManager_init n))" .
  from all_active_count [OF run]
  show "active_count (sm_run calls (SessionManager_init n))
       = int (length (sessions (sm_run calls (SessionManager_init n))))" .
next
  assume e: "SessionManager_end sm sid now = (summary, Some ended, sm')"
  then show "\<not> is_active ended"
    by (auto simp: SessionManager_end_def dict_pop_def Let_def split: option.splits)
  from e show "SessionManager_get sm' sid = None"
    by (auto simp: SessionManager_end_def dict_pop_def Let_def SessionManager_get_def
          map_of_delete_same split: option.splits)
  from e show "sessions sm' = AList.delete sid (sessions sm)"
    by (auto simp: SessionManager_end_def dict_pop_def Let_def split: option.splits)
qed

theorem registry_sessions_active_witness:
  "all_active \<lparr>sessions = [(''a'', new_VoiceSession ''a'' ''support'' 3)], max_sessions = 2\<rparr>
   \<and> all_active (sm_run [Create ''sales'' ''b'' 4, Get ''a'', CleanupStale 300 400, End ''b'' 401]
        \<lparr>sessions = [(''a'', new_VoiceSession ''a'' ''support'' 3)], max_sessions = 2\<rparr>)
   \<and> active_count (sm_run [Create ''sales'' ''b'' 4, Get ''a'', CleanupStale 300 400, End ''b'' 401]
        (SessionManager_init 2)) = 0
   \<and> SessionManager_end
        \<lparr>sessions = [(''a'', new_VoiceSession ''a'' ''support'' 3)], max_sessions = 2\<rparr> ''a'' 7
      = (Some \<lparr>summary_session_id = ''a'', summary_persona = ''support'', duration_seconds = 4,
               turn_count = 0, summary_transcript = [], summary_audio_chunks_in = 0,
               summary_audio_chunks_out = 0\<rparr>,
         Some ((new_VoiceSession ''a'' ''support'' 3)\<lparr>is_active := False\<rparr>),
         \<lparr>sessions = [], max_sessions = 2\<rparr>)
   \<and> \<not> is_active ((new_VoiceSession ''a'' ''support'' 3)\<lparr>is_active := False\<rparr>)"
  using registry_sessions_active
          [where sm = "\<lparr>sessions = [(''a'', new_VoiceSession ''a'' ''support'' 3)], max_sessions = 2\<rparr>"
             and calls = "[Create ''sales'' ''b'' 4, Get ''a'', CleanupStale 300 400, End ''b'' 401]"
             and n = 2 and sid = "''a''" and now = 7
             and summary = "Some \<lparr>summary_session_id = ''a'', summary_persona = ''support'',
                 duration_seconds = 4, turn_count = 0, summary_transcript = [],
                 summary_audio_chunks_in = 0, summary_audio_chunks_out = 0\<rparr>"
             and ended = "(new_VoiceSession ''a'' ''support'' 3)\<lparr>is_active := False\<rparr>"
             and sm' = "\<lparr>sessions = [], max_sessions = 2\<rparr>"]
  by (simp add: all_active_def new_VoiceSession_def SessionManager_end_def dict_pop_def
        sm_run_def SessionManager_create_def SessionManager_cleanup_stale_def
        SessionManager_init_def active_count_def Let_def)

section \<open>Text inference releases its session\<close>

lemma map_entry_fresh_last:
  "k \<notin> fst ` set al \<Longrightarrow> AList.map_entry k f (al @ [(k, v)]) = al @ [(k, f v)]"
  by (induction al) auto

lemma delete_fresh_last:
  "k \<notin> fst ` set al \<Longrightarrow> AList.delete k (al @ [(k, v)]) = al"
  by (induction al) auto

lemma end_fresh_last:
  assumes "k \<notin> fst ` set (sessions sm)"
  shows "snd (snd (SessionManager_end (sm\<lparr>sessions := sessions sm @ [(k, v)]\<rparr>) k now)) = sm"
proof -
  have "map_of (sessions sm) k = None"
    using assms by (simp add: map_of_eq_None_iff)
  then have "map_of (sessions sm @ [(k, v)]) k = Some v"
    by (simp add: map_add_def)
  then show ?thesis
    using assms
    by (simp add: SessionManager_end_def dict_pop_def Let_def delete_fresh_last)
qed

lemma text_inference_restores:
  assumes fresh: "uuid \<notin> fst ` set (sessions sm)"
  shows "snd (text_inference loaded sm request uuid clock outcome) = sm"
proof (cases "loaded \<and> active_count sm < max_sessions sm")
  case False
  then show ?thesis
    by (auto simp: text_inference_def create_rejected)
next
  case True
  let ?s = "new_VoiceSession uuid (request_persona request) (clock 0)"
  have c: "SessionManager_create sm (request_persona request) uuid (clock 0)
             = (Inr ?s, sm\<lparr>sessions := sessions sm @ [(uuid, ?s)]\<rparr>)"
    using True fresh by (simp add: create_admitted(1))
  have sid: "session_id ?s = uuid"
    by (simp add: new_VoiceSession_def)
  show ?thesis
  proof (cases outcome)
    case (Inl e)
    then show ?thesis
      using True end_fresh_last [OF fresh, of ?s "clock 1"]
      by (simp add: text_inference_def c sid case_prod_beta)
  next
    case (Inr result)
    have m: "mutate_session uuid f (sm\<lparr>sessions := sessions sm @ [(uuid, v)]\<rparr>)
               = sm\<lparr>sessions := sessions sm @ [(uuid, f v)]\<rparr>" for f v
      using fresh by (simp add: mutate_session_def map_entry_fresh_last)
    show ?thesis
      using True Inr end_fresh_last [OF fresh, of _ "clock 3"]
      by (simp add: text_inference_def c sid m Let_def case_prod_beta)
  qed
qed

lemma text_inference_ends:
  assumes "loaded" and "active_count sm < max_sessions sm"
  shows "SessionManager_get (snd (text_inference loaded sm request uuid clock outcome)) uuid = None"
proof -
  let ?s = "new_VoiceSession uuid (request_persona request) (clock 0)"
  have c: "SessionManager_create sm (request_persona request) uuid (clock 0)
             = (Inr ?s, sm\<lparr>sessions := AList.update uuid ?s (sessions sm)\<rparr>)"
    using assms by (simp add: SessionManager_create_def active_count_def Let_def new_VoiceSession_def)
  have sid: "session_id ?s = uuid"
    by (simp add: new_VoiceSession_def)
  have e: "map_of (sessions (snd (snd (SessionManager_end sm0 uuid t)))) uuid = None" for sm0 t
    by (simp add: SessionManager_end_def dict_pop_def Let_def map_of_delete_same
          split: option.splits)
  show ?thesis
  proof (cases outcome)
    case (Inl err)
    then show ?thesis
      using assms e [of "sm\<lparr>sessions := AList.update uuid ?s (sessions sm)\<rparr>" "clock 1"]
      by (simp add: text_inference_def c sid SessionManager_get_def case_prod_beta)
  next
    case (Inr result)
    then show ?thesis
      using assms e [of _ "clock 3"]
      by (simp add: text_inference_def c sid SessionManager_get_def Let_def case_prod_beta)
  qed
qed

text \<open>
  Claim C10. A \<^verbatim>\<open>text_inference\<close> call whose fresh identifier is not yet a key of the
  registry returns with the manager exactly as it found it, so with the same active count,
  whether the model is loaded or not, whether the session is admitted or not, and whether
  the inference step returns or raises; and whenever the session was created, its
  identifier is no longer registered when the call returns, and the call fails exactly
  when the inference step does.
\<close>

theorem text_inference_no_leak:
  "(uuid \<notin> fst ` set (sessions sm) \<longrightarrow>
      snd (text_inference loaded sm request uuid clock outcome) = sm
      \<and> active_count (snd (text_inference loaded sm request uuid clock outcome)) = active_count sm)
   \<and> (loaded \<and> active_count sm < max_sessions sm \<longrightarrow>
        SessionManager_get (snd (text_inference loaded sm request uuid clock outcome)) uuid = None
        \<and> (isl (fst (text_inference loaded sm request uuid clock outcome)) \<longleftrightarrow> isl outcome))"
proof (intro conjI impI)
  assume "uuid \<notin> fst ` set (sessions sm)"
  then show r: "snd (text_inference loaded sm request uuid clock outcome) = sm"
    by (rule text_inference_restores)
  show "active_count (snd (text_inference loaded sm request uuid clock outcome)) = active_count sm"
    by (simp add: r)
next
  assume a: "loaded \<and> active_count sm < max_sessions sm"
  then show "SessionManager_get (snd (text_inference loaded sm request uuid clock outcome)) uuid = None"
    by (simp add: text_inference_ends)
  from a show "isl (fst (text_inference loaded sm request uuid clock outcome)) \<longleftrightarrow> isl outcome"
    by (cases outcome)
       (simp_all add: text_inference_def SessionManager_create_def active_count_def Let_def
          case_prod_beta)
qed

theorem text_inference_no_leak_witness:
  "''b'' \<notin> fst ` set (sessions \<lparr>sessions = [(''a'', new_VoiceSession ''a'' ''support'' 3)], max_sessions = 2\<rparr>)
   \<and> active_count \<lparr>sessions = [(''a'', new_VoiceSession ''a'' ''support'' 3)], max_sessions = 2\<rparr>
       < max_sessions \<lparr>sessions = [(''a'', new_VoiceSession ''a'' ''support'' 3)], max_sessions = 2\<rparr>
   \<and> text_inference True
        \<lparr>sessions = [(''a'', new_VoiceSession ''a'' ''support'' 3)], max_sessions = 2\<rparr>
        \<lparr>request_text = ''randevu'', request_persona = ''sales'', request_language = ''tr''\<rparr>
        ''b'' (\<lambda>k. 10 + real k) (Inl (Fault ''inference failed''))
      = (Inl (Fault ''inference failed''),
         \<lparr>sessions = [(''a'', new_VoiceSession ''a'' ''support'' 3)], max_sessions = 2\<rparr>)
   \<and> text_inference True
        \<lparr>sessions = [(''a'', new_VoiceSession ''a'' ''support'' 3)], max_sessions = 2\<rparr>
        \<lparr>request_text = ''randevu'', request_persona = ''sales'', request_language = ''tr''\<rparr>
        ''b'' (\<lambda>k. 10 + real k)
        (Inr \<lparr>intent = ''appointment'', confidence = 9 / 10, response_text = ''ok'',
              latency_ms = 1\<rparr>)
      = (Inr \<lparr>response_session_id = ''b'', response_intent = ''appointment'',
              response_confidence = 9 / 10, response_response_text = ''ok'',
              response_latency_ms = 1\<rparr>,
         \<lparr>sessions = [(''a'', new_VoiceSession ''a'' ''support'' 3)], max_sessions = 2\<rparr>)"
  using text_inference_no_leak
          [where sm = "\<lparr>sessions = [(''a'', new_VoiceSession ''a'' ''support'' 3)], max_sessions = 2\<rparr>"
             and uuid = "''b''" and loaded = True
             and request = "\<lparr>request_text = ''randevu'', request_persona = ''sales'', request_language = ''tr''\<rparr>"
             and clock = "\<lambda>k. 10 + real k" and outcome = "Inl (Fault ''inference failed'')"]
        text_inference_no_leak
          [where sm = "\<lparr>sessions = [(''a'', new_VoiceSession ''a'' ''support'' 3)], max_sessions = 2\<rparr>"
             and uuid = "''b''" and loaded = True
             and request = "\<lparr>request_text = ''randevu'', request_persona = ''sales'', request_language = ''tr''\<rparr>"
             and clock = "\<lambda>k. 10 + real k"
             and outcome = "Inr \<lparr>intent = ''appointment'', confidence = 9 / 10,
                                 response_text = ''ok'', latency_ms = 1\<rparr>"]
  by (simp add: text_inference_def SessionManager_create_def SessionManager_end_def dict_pop_def
        mutate_session_def transcript_append_def new_VoiceSession_def active_count_def Let_def)

section \<open>Oversized audio frames\<close>

lemma ws_iteration_oversized:
  "int (length audio_chunk) > MAX_AUDIO_CHUNK_SIZE \<Longrightarrow>
     ws_iteration now (ReceiveBytes audio_chunk) c = (Continue, c)"
  by simp

lemma ws_iteration_accepted:
  "int (length audio_chunk) \<le> MAX_AUDIO_CHUNK_SIZE \<Longrightarrow>
     ws_iteration now (ReceiveBytes audio_chunk) c =
       (Continue,
        c\<lparr>conn_session := (conn_session c)
             \<lparr>audio_chunks_in := audio_chunks_in (conn_session c) + 1, last_activity := now\<rparr>\<rparr>)"
  by (simp add: process_audio_def)

lemma ws_loop_skips_oversized:
  "int (length audio_chunk) > MAX_AUDIO_CHUNK_SIZE \<Longrightarrow>
     ws_loop (pre @ (now, ReceiveBytes audio_chunk) # post) c = ws_loop (pre @ post) c"
proof (induction pre arbitrary: c)
  case Nil
  then show ?case by simp
next
  case (Cons p pre)
  obtain t ev where p: "p = (t, ev)" by (cases p)
  obtain fl c' where it: "ws_iteration t ev c = (fl, c')" by (cases "ws_iteration t ev c")
  show ?case
    using Cons.IH [OF Cons.prems, of c'] by (cases fl) (simp_all add: p it)
qed

text \<open>
  Claim C8. An audio frame longer than \<^verbatim>\<open>MAX_AUDIO_CHUNK_SIZE\<close> is dropped: the iteration
  leaves the session (last activity, transcript, audio counters) and the frames sent as they
  were and the loop goes on, so that the whole loop runs as if the frame had not arrived;
  a frame of at most that length raises the inbound counter by one, sets the last activity
  to the clock reading, sends nothing, and the loop goes on.
\<close>

theorem oversized_audio_dropped:
  "(int (length audio_chunk) > MAX_AUDIO_CHUNK_SIZE \<longrightarrow>
      ws_iteration now (ReceiveBytes audio_chunk) c = (Continue, c)
      \<and> ws_loop (pre @ (now, ReceiveBytes audio_chunk) # post) c = ws_loop (pre @ post) c)
   \<and> (int (length audio_chunk) \<le> MAX_AUDIO_CHUNK_SIZE \<longrightarrow>
        ws_iteration now (ReceiveBytes audio_chunk) c =
          (Continue,
           c\<lparr>conn_session := (conn_session c)
                \<lparr>audio_chunks_in := audio_chunks_in (conn_session c) + 1,
                 last_activity := now\<rparr>\<rparr>))"
  using ws_iteration_oversized [of audio_chunk now c]
        ws_loop_skips_oversized [of audio_chunk pre now post c]
        ws_iteration_accepted [of audio_chunk now c]
  by blast

theorem oversized_audio_dropped_witness:
  "int (length (replicate 32001 (0 :: 8 word))) > MAX_AUDIO_CHUNK_SIZE
   \<and> ws_loop [(5, ReceiveBytes (replicate 32001 0)), (6, ReceiveBytes [1, 2, 3])]
        \<lparr>conn_session = new_VoiceSession ''a'' ''support'' 3, conn_sent = []\<rparr>
      = (Continue,
         \<lparr>conn_session = (new_VoiceSession ''a'' ''support'' 3)
                            \<lparr>audio_chunks_in := 1, last_activity := 6\<rparr>,
           conn_sent = []\<rparr>)
   \<and> int (length [1, 2, 3 :: 8 word]) \<le> MAX_AUDIO_CHUNK_SIZE
   \<and> ws_iteration 6 (ReceiveBytes [1, 2, 3])
        \<lparr>conn_session = new_VoiceSession ''a'' ''support'' 3, conn_sent = []\<rparr>
      = (Continue,
         \<lparr>conn_session = (new_VoiceSession ''a'' ''support'' 3)
                            \<lparr>audio_chunks_in := 1, last_activity := 6\<rparr>,
           conn_sent = []\<rparr>)"
  using oversized_audio_dropped
          [where audio_chunk = "replicate 32001 0" and now = 5 and pre = "[]"
             and post = "[(6, ReceiveBytes [1, 2, 3])]"
             and c = "\<lparr>conn_session = new_VoiceSession ''a'' ''support'' 3, conn_sent = []\<rparr>"]
        oversized_audio_dropped
          [where audio_chunk = "[1, 2, 3]" and now = 6 and pre = "[]" and post = "[]"
             and c = "\<lparr>conn_session = new_VoiceSession ''a'' ''support'' 3, conn_sent = []\<rparr>"]
  by (simp add: MAX_AUDIO_CHUNK_SIZE_def new_VoiceSession_def process_audio_def)

section \<open>Reading the context store\<close>


lemma to_dict_fields:
  assumes "to_dict now e = Inr d"
  shows "dict_id d = entry_id e" and "dict_priority d = entry_priority e"
    and "dict_type d = entry_type e"
  using assms by (auto simp: to_dict_def split: if_splits)

lemma to_dict_error: "to_dict now e = Inl err \<Longrightarrow> err = OverflowError \<and> float_overflow (ttl e)"
  by (auto simp: to_dict_def split: if_splits)

lemma to_dict_projr:
  "\<not> float_overflow (ttl e) \<Longrightarrow> to_dict now e = Inr (projr (to_dict now e))"
  by (simp add: to_dict_def)

lemma guards_selected:
  "(\<not> (\<not> include_expired \<and> is_expired now e)
      \<and> \<not> (case types of None \<Rightarrow> False | Some ts \<Rightarrow> ts \<noteq> [] \<and> entry_type e \<notin> set ts))
     \<longleftrightarrow> selected types include_expired now e"
  by (auto simp: selected_def is_expired_def split: option.splits)

lemma get_context_loop_skip:
  "\<not> selected types include_expired now e \<Longrightarrow>
     get_context_loop types include_expired now (e # es)
       = (fst (get_context_loop types include_expired now es),
          e # snd (get_context_loop types include_expired now es))"
  using guards_selected [of include_expired now e types]
  by (auto simp: case_prod_beta)

lemma get_context_loop_raise:
  "selected types include_expired now e \<Longrightarrow> float_overflow (ttl e) \<Longrightarrow>
     get_context_loop types include_expired now (e # es) = (Inl OverflowError, accessed e # es)"
  using guards_selected [of include_expired now e types]
  by (auto simp: to_dict_def accessed_def)

lemma get_context_loop_take:
  assumes "selected types include_expired now e" and "\<not> float_overflow (ttl e)"
  shows "get_context_loop types include_expired now (e # es)
       = (case fst (get_context_loop types include_expired now es) of
            Inl err \<Rightarrow> Inl err
          | Inr ds \<Rightarrow> Inr (projr (to_dict now (accessed e)) # ds),
          accessed e # snd (get_context_loop types include_expired now es))"
proof -
  obtain d where d: "to_dict now (e\<lparr>accessed_count := accessed_count e + 1\<rparr>) = Inr d"
    using assms(2) by (simp add: to_dict_def)
  then have pd: "projr (to_dict now (accessed e)) = d"
    by (simp add: accessed_def)
  have g: "\<not> (\<not> include_expired \<and> is_expired now e)"
      "\<not> (case types of None \<Rightarrow> False | Some ts \<Rightarrow> ts \<noteq> [] \<and> entry_type e \<notin> set ts)"
    using guards_selected [of include_expired now e types] assms(1) by auto
  show ?thesis
    unfolding pd
    by (simp only: get_context_loop.simps g if_False Let_def d sum.case case_prod_beta
          accessed_def)
qed

declare get_context_loop.simps(2) [simp del]

lemma get_context_loop_completes:
  "loop_completes types include_expired now es \<Longrightarrow>
     get_context_loop types include_expired now es
       = (Inr (map (\<lambda>e. projr (to_dict now (accessed e)))
                 (filter (selected types include_expired now) es)),
          map (\<lambda>e. if selected types include_expired now e then accessed e else e) es)"
proof (induction es)
  case Nil
  show ?case by simp
next
  case (Cons e es)
  then have rest: "loop_completes types include_expired now es"
    by (simp add: loop_completes_def)
  show ?case
  proof (cases "selected types include_expired now e")
    case False
    then show ?thesis
      by (simp add: get_context_loop_skip Cons.IH [OF rest])
  next
    case True
    with Cons.prems have "\<not> float_overflow (ttl e)"
      by (simp add: loop_completes_def)
    with True show ?thesis
      by (simp add: get_context_loop_take Cons.IH [OF rest])
  qed
qed

lemma get_context_loop_fails:
  "\<not> loop_completes types include_expired now es \<Longrightarrow>
     fst (get_context_loop types include_expired now es) = Inl OverflowError"
proof (induction es)
  case Nil
  then show ?case by (simp add: loop_completes_def)
next
  case (Cons e es)
  show ?case
  proof (cases "selected types include_expired now e")
    case False
    with Cons.prems have "\<not> loop_completes types include_expired now es"
      by (simp add: loop_completes_def)
    with False show ?thesis
      by (simp add: get_context_loop_skip Cons.IH)
  next
    case True
    show ?thesis
    proof (cases "float_overflow (ttl e)")
      case True
      with \<open>selected types include_expired now e\<close> show ?thesis
        by (simp add: get_context_loop_raise)
    next
      case False
      with Cons.prems True have "\<not> loop_completes types include_expired now es"
        by (simp add: loop_completes_def)
      with True False show ?thesis
        by (simp add: get_context_loop_take Cons.IH)
    qed
  qed
qed




lemma get_context_returns:
  "loop_completes types include_expired now (dict_get (store cs) sid []) \<Longrightarrow>
     fst (get_context cs sid types include_expired now)
       = Inr (sort_key priority_key
                (map (\<lambda>e. projr (to_dict now (accessed e)))
                   (filter (selected types include_expired now) (dict_get (store cs) sid []))))"
  by (simp add: get_context_def Let_def case_prod_beta get_context_loop_completes)

lemma get_context_raises:
  "\<not> loop_completes types include_expired now (dict_get (store cs) sid []) \<Longrightarrow>
     fst (get_context cs sid types include_expired now) = Inl OverflowError"
  by (simp add: get_context_def Let_def case_prod_beta get_context_loop_fails)

lemma get_context_result:
  assumes "fst (get_context cs sid types include_expired now) = Inr r"
  shows "loop_completes types include_expired now (dict_get (store cs) sid [])"
    and "r = sort_key priority_key
               (map (\<lambda>e. projr (to_dict now (accessed e)))
                  (filter (selected types include_expired now) (dict_get (store cs) sid [])))"
proof -
  show c: "loop_completes types include_expired now (dict_get (store cs) sid [])"
    using assms get_context_raises [of types include_expired now cs sid] by auto
  from get_context_returns [OF c] assms
  show "r = sort_key priority_key
               (map (\<lambda>e. projr (to_dict now (accessed e)))
                  (filter (selected types include_expired now) (dict_get (store cs) sid [])))"
    by simp
qed

lemma dict_id_projr:
  "\<not> float_overflow (ttl e) \<Longrightarrow> dict_id (projr (to_dict now (accessed e))) = entry_id e"
  by (simp add: to_dict_def accessed_def)

lemma get_context_ids:
  assumes "fst (get_context cs sid types include_expired now) = Inr r"
  shows "set (map dict_id r)
     = entry_id ` {e \<in> set (dict_get (store cs) sid []). selected types include_expired now e}"
proof -
  let ?es = "dict_get (store cs) sid []"
  have id: "dict_id (projr (to_dict now (accessed e))) = entry_id e"
    if "e \<in> {e \<in> set ?es. selected types include_expired now e}" for e
    using get_context_result(1) [OF assms] that
    by (auto simp: loop_completes_def list_all_iff dict_id_projr)
  have "set (map dict_id r)
          = (\<lambda>e. dict_id (projr (to_dict now (accessed e))))
              ` {e \<in> set ?es. selected types include_expired now e}"
    unfolding get_context_result(2) [OF assms] by (auto simp: image_iff)
  also have "\<dots> = entry_id ` {e \<in> set ?es. selected types include_expired now e}"
    by (rule image_cong [OF refl id])
  finally show ?thesis .
qed

lemma get_context_member:
  assumes "fst (get_context cs sid types include_expired now) = Inr r"
    and "distinct (map entry_id es)" and "es = dict_get (store cs) sid []" and "e \<in> set es"
  shows "entry_id e \<in> dict_id ` set r \<longleftrightarrow> selected types include_expired now e"
proof
  assume "entry_id e \<in> dict_id ` set r"
  then have "entry_id e \<in> entry_id ` {e \<in> set es. selected types include_expired now e}"
    using get_context_ids [OF assms(1)] assms(3) by simp
  then obtain e' where e': "e' \<in> set es" "selected types include_expired now e'"
      "entry_id e' = entry_id e"
    by auto
  from assms(2) have "inj_on entry_id (set es)"
    by (simp add: distinct_map)
  with e'(1,3) assms(4) have "e' = e"
    by (auto dest: inj_onD)
  with e'(2) show "selected types include_expired now e" by simp
next
  assume "selected types include_expired now e"
  then have "entry_id e \<in> entry_id ` {e \<in> set es. selected types include_expired now e}"
    using assms(4) by auto
  then show "entry_id e \<in> dict_id ` set r"
    using get_context_ids [OF assms(1)] assms(3) by simp
qed

section \<open>The expiry sweep\<close>

lemma cleanup_expired_loop_eq:
  "cleanup_expired_loop now items s cleaned empties =
     (fold (\<lambda>(sid, es). AList.update sid (unexpired now es)) items s,
      cleaned + sum_list (map (\<lambda>(sid, es). int (length (filter (is_expired now) es))) items),
      empties @ map fst (filter (\<lambda>(sid, es). unexpired now es = []) items))"
proof (induction items arbitrary: s cleaned empties)
  case Nil
  show ?case by simp
next
  case (Cons item items)
  obtain sid es where item: "item = (sid, es)" by (cases item)
  have len: "int (length es) - int (length (unexpired now es))
               = int (length (filter (is_expired now) es))"
    using sum_length_filter_compl [of "is_expired now" es] by (simp add: unexpired_def)
  show ?case
    unfolding item
    by (simp add: Cons.IH Let_def len unexpired_def [symmetric])
qed

lemma update_behind:
  "k \<notin> fst ` set pre \<Longrightarrow> AList.update k v (pre @ al) = pre @ AList.update k v al"
  by (induction pre) auto

lemma fold_update_own_items:
  "distinct (map fst (pre @ items)) \<Longrightarrow>
     fold (\<lambda>(k, v). AList.update k (g v)) items (pre @ items)
       = pre @ map (\<lambda>(k, v). (k, g v)) items"
proof (induction items arbitrary: pre)
  case Nil
  show ?case by simp
next
  case (Cons item items)
  obtain k v where item: "item = (k, v)" by (cases item)
  from Cons.prems have k: "k \<notin> fst ` set pre"
    by (auto simp: item)
  have d: "distinct (map fst ((pre @ [(k, g v)]) @ items))"
    using Cons.prems by (auto simp: item)
  have "fold (\<lambda>(k, v). AList.update k (g v)) (item # items) (pre @ item # items)
          = fold (\<lambda>(k, v). AList.update k (g v)) items ((pre @ [(k, g v)]) @ items)"
    by (simp add: item update_behind [OF k])
  also have "\<dots> = (pre @ [(k, g v)]) @ map (\<lambda>(k, v). (k, g v)) items"
    by (rule Cons.IH [OF d])
  finally show ?case by (simp add: item)
qed

lemma fold_delete_filter:
  "fold AList.delete ks al = filter (\<lambda>kv. fst kv \<notin> set ks) al"
proof (induction ks arbitrary: al)
  case Nil
  show ?case by simp
next
  case (Cons k ks)
  have "fold AList.delete (k # ks) al = filter (\<lambda>kv. fst kv \<notin> set ks) (AList.delete k al)"
    by (simp add: Cons.IH)
  also have "\<dots> = filter (\<lambda>kv. fst kv \<notin> set (k # ks)) al"
    by (auto simp: AList.delete_eq intro: filter_cong)
  finally show ?case .
qed

lemma delete_empty_keys:
  assumes "distinct (map fst al)"
  shows "fold AList.delete (map fst (filter (\<lambda>kv. snd kv = []) al)) al
           = filter (\<lambda>kv. snd kv \<noteq> []) al"
proof -
  have "fst kv \<notin> set (map fst (filter (\<lambda>kv. snd kv = []) al)) \<longleftrightarrow> snd kv \<noteq> []"
    if "kv \<in> set al" for kv
  proof
    assume "fst kv \<notin> set (map fst (filter (\<lambda>kv. snd kv = []) al))"
    with that show "snd kv \<noteq> []" by force
  next
    assume ne: "snd kv \<noteq> []"
    show "fst kv \<notin> set (map fst (filter (\<lambda>kv. snd kv = []) al))"
    proof
      assume "fst kv \<in> set (map fst (filter (\<lambda>kv. snd kv = []) al))"
      then obtain kv' where kv': "kv' \<in> set al" "snd kv' = []" "fst kv' = fst kv"
        by auto
      from assms have "inj_on fst (set al)"
        by (simp add: distinct_map)
      with kv'(1,3) that have "kv' = kv" by (auto dest: inj_onD)
      with kv'(2) ne show False by simp
    qed
  qed
  then show ?thesis
    unfolding fold_delete_filter by (intro filter_cong) auto
qed

lemma cleanup_expired_eq:
  assumes "distinct (map fst (store cs))"
  shows "cleanup_expired cs now =
     (sum_list (map (\<lambda>(sid, es). int (length (filter (is_expired now) es))) (store cs)),
      cs\<lparr>store := filter (\<lambda>kv. snd kv \<noteq> [])
                     (map (\<lambda>(sid, es). (sid, unexpired now es)) (store cs))\<rparr>)"
proof -
  let ?swept = "map (\<lambda>(sid, es). (sid, unexpired now es)) (store cs)"
  have f: "fold (\<lambda>(sid, es). AList.update sid (unexpired now es)) (store cs) (store cs) = ?swept"
    using fold_update_own_items [of "[]" "store cs" "unexpired now"] assms by simp
  have e: "map fst (filter (\<lambda>(sid, es). unexpired now es = []) (store cs))
             = map fst (filter (\<lambda>kv. snd kv = []) ?swept)"
    by (induction "store cs") (auto simp: filter_map comp_def case_prod_beta)
  have d: "distinct (map fst ?swept)"
    using assms by (simp add: comp_def case_prod_beta)
  show ?thesis
    by (simp add: cleanup_expired_def cleanup_expired_loop_eq f e delete_empty_keys [OF d])
qed

lemma map_of_swept:
  assumes "distinct (map fst al)"
  shows "map_of (filter (\<lambda>kv. snd kv \<noteq> []) (map (\<lambda>(k, v). (k, g v)) al)) k
           = (case map_of al k of None \<Rightarrow> None
              | Some v \<Rightarrow> if g v = [] then None else Some (g v))"
  using assms
proof (induction al)
  case Nil
  show ?case by simp
next
  case (Cons kv al)
  obtain k0 v0 where kv: "kv = (k0, v0)" by (cases kv)
  from Cons.prems have k0: "k0 \<notin> fst ` set al" and d: "distinct (map fst al)"
    by (auto simp: kv)
  from k0 have none: "map_of al k0 = None"
    by (simp add: map_of_eq_None_iff)
  show ?case
    using Cons.IH [OF d] none by (auto simp: kv split: option.splits)
qed

lemma dict_get_swept:
  assumes "distinct (map fst al)"
  shows "dict_get (filter (\<lambda>kv. snd kv \<noteq> []) (map (\<lambda>(k, v). (k, filter P v)) al)) k []
           = filter P (dict_get al k [])"
  by (simp add: dict_get_def map_of_swept [OF assms] split: option.splits)


lemma cleanup_expired_exact:
  assumes d: "distinct (map fst (store cs))"
  shows "fst (cleanup_expired cs now)
          = sum_list (map (\<lambda>(k, es). int (length
               (filter (\<lambda>e. now - entry_created_at e > real_of_int (ttl e)) es))) (store cs))"
    and "store (snd (cleanup_expired cs now))
          = filter (\<lambda>kv. snd kv \<noteq> [])
              (map (\<lambda>(k, es). (k, filter (\<lambda>e. \<not> now - entry_created_at e > real_of_int (ttl e)) es))
                 (store cs))"
    and "dict_get (store (snd (cleanup_expired cs now))) sid []
          = filter (\<lambda>e. \<not> now - entry_created_at e > real_of_int (ttl e))
              (dict_get (store cs) sid [])"
    and "events (snd (cleanup_expired cs now)) = events cs"
proof -
  have ex: "is_expired now = (\<lambda>e. now - entry_created_at e > real_of_int (ttl e))"
    by (simp add: is_expired_def fun_eq_iff)
  have eq: "cleanup_expired cs now =
     (sum_list (map (\<lambda>(k, es). int (length
               (filter (\<lambda>e. now - entry_created_at e > real_of_int (ttl e)) es))) (store cs)),
      cs\<lparr>store := filter (\<lambda>kv. snd kv \<noteq> [])
              (map (\<lambda>(k, es). (k, filter (\<lambda>e. \<not> now - entry_created_at e > real_of_int (ttl e)) es))
                 (store cs))\<rparr>)"
    using cleanup_expired_eq [OF d, of now] by (simp add: unexpired_def ex)
  show "fst (cleanup_expired cs now)
          = sum_list (map (\<lambda>(k, es). int (length
               (filter (\<lambda>e. now - entry_created_at e > real_of_int (ttl e)) es))) (store cs))"
    by (simp add: eq)
  show "store (snd (cleanup_expired cs now))
          = filter (\<lambda>kv. snd kv \<noteq> [])
              (map (\<lambda>(k, es). (k, filter (\<lambda>e. \<not> now - entry_created_at e > real_of_int (ttl e)) es))
                 (store cs))"
    by (simp add: eq)
  show "dict_get (store (snd (cleanup_expired cs now))) sid []
          = filter (\<lambda>e. \<not> now - entry_created_at e > real_of_int (ttl e))
              (dict_get (store cs) sid [])"
    by (simp add: eq dict_get_swept [OF d])
  show "events (snd (cleanup_expired cs now)) = events cs"
    by (simp add: eq)
qed

lemma get_context_unfiltered:
  assumes r: "fst (get_context cs sid None include_expired now) = Inr r"
    and d: "distinct (map entry_id (dict_get (store cs) sid []))"
    and e: "e \<in> set (dict_get (store cs) sid [])"
  shows "entry_id e \<in> dict_id ` set r
           \<longleftrightarrow> now - entry_created_at e \<le> real_of_int (ttl e) \<or> include_expired"
  using get_context_member [OF r d refl e] by (auto simp: selected_def)

lemma get_context_unfiltered_returns:
  assumes "list_all (\<lambda>e. \<not> float_overflow (ttl e)) (dict_get (store cs) sid [])"
  shows "\<exists>r. fst (get_context cs sid types include_expired now) = Inr r"
proof -
  have "loop_completes types include_expired now (dict_get (store cs) sid [])"
    using assms by (simp add: loop_completes_def list_all_iff)
  from get_context_returns [OF this] show ?thesis by blast
qed

text \<open>
  Claim C3 at a time to live of \<open>2 ^ 1024\<close> seconds. The entry, created at time 0, is not
  expired at time 10, so the claim has it in the result of an unfiltered \<^verbatim>\<open>get_context\<close>;
  the call raises \<^verbatim>\<open>OverflowError\<close> and has no result, with or without
  \<^verbatim>\<open>include_expired\<close>.
\<close>

theorem get_context_overflowing_ttl:
  "\<not> is_expired 10 (sample_entry ''e1'' ''invoice'' ''high'' (2 ^ 1024))
   \<and> fst (get_context
           \<lparr>store = [(''s'', [sample_entry ''e1'' ''invoice'' ''high'' (2 ^ 1024)])], events = []\<rparr>
           ''s'' None False 10) = Inl OverflowError
   \<and> fst (get_context
           \<lparr>store = [(''s'', [sample_entry ''e1'' ''invoice'' ''high'' (2 ^ 1024)])], events = []\<rparr>
           ''s'' None True 10) = Inl OverflowError"
  by (simp add: get_context_def get_context_loop.simps(2) sample_entry_def dict_get_def to_dict_def
        is_expired_def float_overflow_def Let_def)


section \<open>Priority order of the results\<close>

lemma priority_key_cases:
  "priority_key x = (if dict_priority x = ''urgent'' then 0
                     else if dict_priority x = ''high'' then 1 else 2)"
  by (simp add: priority_key_def priority_order_def dict_get_def)

lemma filter_priority_sort:
  "filter (\<lambda>x. dict_priority x = p) (sort_key priority_key xs)
     = filter (\<lambda>x. dict_priority x = p) xs"
proof -
  let ?k = "if p = ''urgent'' then 0 else if p = ''high'' then 1 else (2 :: nat)"
  have narrow: "filter (\<lambda>x. dict_priority x = p) ys
                  = filter (\<lambda>x. dict_priority x = p) (filter (\<lambda>x. priority_key x = ?k) ys)" for ys
    by (induction ys) (auto simp: priority_key_cases)
  have "filter (\<lambda>x. dict_priority x = p) (sort_key priority_key xs)
          = filter (\<lambda>x. dict_priority x = p)
              (filter (\<lambda>x. priority_key x = ?k) (sort_key priority_key xs))"
    by (rule narrow)
  also have "\<dots> = filter (\<lambda>x. dict_priority x = p) (filter (\<lambda>x. priority_key x = ?k) xs)"
    by (simp only: sort_key_stable)
  also have "\<dots> = filter (\<lambda>x. dict_priority x = p) xs"
    by (rule narrow [symmetric])
  finally show ?thesis .
qed


lemma dict_priority_projr:
  "\<not> float_overflow (ttl e) \<Longrightarrow>
     dict_priority (projr (to_dict now (accessed e))) = entry_priority e"
  by (simp add: to_dict_def accessed_def)

lemma get_context_of_priority:
  assumes r: "fst (get_context cs sid types include_expired now) = Inr r"
  shows "filter (\<lambda>x. dict_priority x = p) r
       = map (\<lambda>e. projr (to_dict now (accessed e)))
           (filter (\<lambda>e. entry_priority e = p \<and> selected types include_expired now e)
              (dict_get (store cs) sid []))"
proof -
  let ?es = "dict_get (store cs) sid []"
  let ?f = "\<lambda>e. projr (to_dict now (accessed e))"
  let ?sel = "selected types include_expired now"
  have fp: "dict_priority (?f e) = entry_priority e" if "e \<in> set (filter ?sel ?es)" for e
    using get_context_result(1) [OF r] that
    by (auto simp: loop_completes_def list_all_iff dict_priority_projr)
  have "filter (\<lambda>x. dict_priority x = p) r
          = filter (\<lambda>x. dict_priority x = p) (map ?f (filter ?sel ?es))"
    unfolding get_context_result(2) [OF r] by (rule filter_priority_sort)
  also have "\<dots> = map ?f (filter (\<lambda>e. dict_priority (?f e) = p) (filter ?sel ?es))"
    by (simp add: filter_map comp_def)
  also have "filter (\<lambda>e. dict_priority (?f e) = p) (filter ?sel ?es)
               = filter (\<lambda>e. entry_priority e = p) (filter ?sel ?es)"
    by (rule filter_cong [OF refl]) (simp add: fp)
  also have "\<dots> = filter (\<lambda>e. entry_priority e = p \<and> ?sel e) ?es"
    by (simp add: conj_commute)
  finally show ?thesis .
qed

text \<open>
  Claim C4. Whenever \<^verbatim>\<open>get_context\<close> returns a list, the list is sorted by the priority
  key, so that no \<^verbatim>\<open>high\<close> or \<^verbatim>\<open>normal\<close> entry comes before an \<^verbatim>\<open>urgent\<close> one and no
  \<^verbatim>\<open>normal\<close> entry before a \<^verbatim>\<open>high\<close> one, and the returned entries of any one priority
  come in the order in which they were inserted in the session's bucket; and the call does
  return a list when every time to live in the bucket fits a float.
\<close>

theorem get_context_priority_order:
  "(fst (get_context cs sid types include_expired now) = Inr r \<longrightarrow>
      sorted (map priority_key r)
      \<and> (\<forall>j < length r. \<forall>i < j.
           (dict_priority (r ! j) = ''urgent'' \<longrightarrow> dict_priority (r ! i) = ''urgent'')
           \<and> (dict_priority (r ! j) = ''high''
                \<longrightarrow> dict_priority (r ! i) = ''urgent'' \<or> dict_priority (r ! i) = ''high''))
      \<and> filter (\<lambda>x. dict_priority x = p) r
          = map (\<lambda>e. projr (to_dict now (e\<lparr>accessed_count := accessed_count e + 1\<rparr>)))
              (filter (\<lambda>e. entry_priority e = p
                           \<and> (include_expired \<or> \<not> is_expired now e)
                           \<and> (case types of None \<Rightarrow> True
                               | Some ts \<Rightarrow> ts = [] \<or> entry_type e \<in> set ts))
                 (dict_get (store cs) sid [])))
   \<and> (list_all (\<lambda>e. \<not> float_overflow (ttl e)) (dict_get (store cs) sid []) \<longrightarrow>
        (\<exists>r'. fst (get_context cs sid types include_expired now) = Inr r'))"
proof (intro conjI allI impI)
  assume r: "fst (get_context cs sid types include_expired now) = Inr r"
  show s: "sorted (map priority_key r)"
    unfolding get_context_result(2) [OF r] by simp
  have sel: "(\<lambda>e. entry_priority e = p \<and> selected types include_expired now e)
           = (\<lambda>e. entry_priority e = p
                        \<and> (include_expired \<or> \<not> is_expired now e)
                        \<and> (case types of None \<Rightarrow> True
                            | Some ts \<Rightarrow> ts = [] \<or> entry_type e \<in> set ts))"
    by (auto simp: selected_def is_expired_def fun_eq_iff)
  show "filter (\<lambda>x. dict_priority x = p) r
          = map (\<lambda>e. projr (to_dict now (e\<lparr>accessed_count := accessed_count e + 1\<rparr>)))
              (filter (\<lambda>e. entry_priority e = p
                           \<and> (include_expired \<or> \<not> is_expired now e)
                           \<and> (case types of None \<Rightarrow> True
                               | Some ts \<Rightarrow> ts = [] \<or> entry_type e \<in> set ts))
                 (dict_get (store cs) sid []))"
    using get_context_of_priority [OF r, of p] by (simp add: sel accessed_def)
  fix j i
  assume j: "j < length r" and i: "i < j"
  have mono: "priority_key (r ! i) \<le> priority_key (r ! j)"
    using sorted_nth_mono [OF s, of i j] i j by simp
  {
    assume "dict_priority (r ! j) = ''urgent''"
    then show "dict_priority (r ! i) = ''urgent''"
      using mono by (simp add: priority_key_cases split: if_splits)
  next
    assume "dict_priority (r ! j) = ''high''"
    then show "dict_priority (r ! i) = ''urgent'' \<or> dict_priority (r ! i) = ''high''"
      using mono by (simp add: priority_key_cases split: if_splits)
  }
next
  assume "list_all (\<lambda>e. \<not> float_overflow (ttl e)) (dict_get (store cs) sid [])"
  then show "\<exists>r'. fst (get_context cs sid types include_expired now) = Inr r'"
    by (rule get_context_unfiltered_returns)
qed

theorem get_context_priority_order_witness:
  "list_all (\<lambda>e. \<not> float_overflow (ttl e)) (dict_get (store sample_store) ''s'' [])
   \<and> map_sum id (map dict_id) (fst (get_context sample_store ''s'' None False 10))
       = Inr [''e2'', ''e4'', ''e1'', ''e3'']
   \<and> map_sum id (map dict_priority) (fst (get_context sample_store ''s'' None False 10))
       = Inr [''urgent'', ''urgent'', ''high'', ''normal'']
   \<and> (2 :: nat) < length [''e2'', ''e4'', ''e1'', ''e3'']
   \<and> (1 :: nat) < 2"
proof -
  have o: "list_all (\<lambda>e. \<not> float_overflow (ttl e)) (dict_get (store sample_store) ''s'' [])"
    by (simp add: sample_store_def sample_entry_def dict_get_def float_overflow_def)
  from get_context_priority_order
         [where cs = sample_store and sid = "''s''" and now = 10 and include_expired = False
            and types = None and p = "''urgent''"] o
  obtain r' where r': "fst (get_context sample_store ''s'' None False 10) = Inr r'"
    by blast
  from get_context_priority_order
         [where cs = sample_store and sid = "''s''" and now = 10 and include_expired = False
            and types = None and p = "''urgent''" and r = r'] r'
  have srt: "sorted (map priority_key r')"
    by blast
  have v: "fst (get_context sample_store ''s'' None False 10)
             = Inr (map (\<lambda>e. projr (to_dict 10 (accessed e)))
                      [sample_entry ''e2'' ''appointment'' ''urgent'' 1800,
                       sample_entry ''e4'' ''custom'' ''urgent'' 1800,
                       sample_entry ''e1'' ''invoice'' ''high'' 60,
                       sample_entry ''e3'' ''customer_history'' ''normal'' 1800])"
    by (simp add: get_context_def get_context_loop.simps(2) sample_store_def sample_entry_def
          dict_get_def to_dict_def is_expired_def float_overflow_def priority_key_def
          priority_order_def accessed_def Let_def)
  show ?thesis
    using o srt by (simp add: v to_dict_def accessed_def sample_entry_def float_overflow_def)
qed


section \<open>The effect of the store operations on the buckets\<close>

lemma add_context_entry:
  "fst (add_context cs payload default_ttl uuid now)
     = ContextEntry_init payload
         (case ttl_seconds payload of None \<Rightarrow> default_ttl
          | Some v \<Rightarrow> if v = 0 then default_ttl else v) uuid now"
  by (simp add: add_context_def Let_def)

lemma add_context_bucket:
  "bucket (snd (add_context cs payload default_ttl uuid now)) k
     = (if k = payload_session_id payload
        then bucket cs k @ [fst (add_context cs payload default_ttl uuid now)]
        else bucket cs k)"
  by (simp add: add_context_def Let_def bucket_def dict_get_def map_of_map_entry update_conv'
        split: option.splits)


lemma add_context_events:
  "events (snd (add_context cs payload default_ttl uuid now)) = events cs"
  by (simp add: add_context_def Let_def)










section \<open>Which types count as used\<close>

















section \<open>Adding context\<close>

lemma add_context_appends:
  "bucket (snd (add_context cs payload default_ttl uuid now)) (payload_session_id payload)
     = bucket cs (payload_session_id payload)
         @ [ContextEntry_init payload
              (case ttl_seconds payload of None \<Rightarrow> default_ttl
               | Some v \<Rightarrow> if v = 0 then default_ttl else v) uuid now]"
  by (simp add: add_context_bucket add_context_entry)

text \<open>
  Claim C5 at \<^verbatim>\<open>ttl_seconds = 0\<close>: with the default of 1800 seconds, the entry created
  for a payload whose override is 0 has a time to live of 1800, not of 0.
\<close>

theorem add_context_zero_ttl_override:
  "ttl (fst (add_context ContextStore_init (sample_payload ''invoice'' ''high'' (Some 0))
               1800 ''e1'' 0)) = 1800"
  by (simp add: add_context_def sample_payload_def ContextEntry_init_def Let_def)

section \<open>Bulk injection\<close>

lemma bulk_item_payload_fields:
  assumes "bulk_item_payload sid item = Inr ctx"
  shows "payload_session_id ctx = sid" and "ttl_seconds ctx = None"
    and "map_of item ''type'' = None \<Longrightarrow> payload_type ctx = ''custom''"
proof -
  obtain ty d pr src where v:
    "dict_get item ''type'' (JStr ''custom'') = ty" "dict_get item ''data'' (JObj []) = d"
    "dict_get item ''priority'' (JStr ''normal'') = pr" "dict_get item ''source'' (JStr ''n8n'') = src"
    by simp
  from assms have i: "ContextPayload_init sid ty d pr None src = Inr ctx"
    by (simp add: bulk_item_payload_def v)
  then obtain t' d' p' s' where k: "ty = JStr t'" "d = JObj d'" "pr = JStr p'" "src = JStr s'"
    by (cases "(sid, ty, d, pr, None :: int option, src)" rule: ContextPayload_init.cases) auto
  from i show "payload_session_id ctx = sid" and "ttl_seconds ctx = None"
    by (auto simp: k)
  assume "map_of item ''type'' = None"
  then have "ty = JStr ''custom''"
    using v(1) by (simp add: dict_get_def)
  with i show "payload_type ctx = ''custom''"
    by (auto simp: k)
qed


lemma bulk_item_payload_error:
  "bulk_item_payload sid item = Inl err \<Longrightarrow> err = ValidationError"
  unfolding bulk_item_payload_def
  by (cases "(sid, dict_get item ''type'' (JStr ''custom''), dict_get item ''data'' (JObj []),
              dict_get item ''priority'' (JStr ''normal''), None :: int option,
              dict_get item ''source'' (JStr ''n8n''))" rule: ContextPayload_init.cases)
     auto

lemma receive_bulk_loop_eq:
  "fst (receive_bulk_loop sid default_ttl items cs results)
     = (if list_all (\<lambda>x. \<not> isl (bulk_item_payload sid (fst x))) items
        then Inr (results @ map (\<lambda>(item, uuid, now).
                     (uuid, payload_type (projr (bulk_item_payload sid item)))) items)
        else Inl ValidationError)"
  "bucket (snd (receive_bulk_loop sid default_ttl items cs results)) k
     = (if k = sid
        then bucket cs sid @ map (\<lambda>(item, uuid, now).
               ContextEntry_init (projr (bulk_item_payload sid item)) default_ttl uuid now)
               (takeWhile (\<lambda>x. \<not> isl (bulk_item_payload sid (fst x))) items)
        else bucket cs k)"
proof (induction items arbitrary: cs results)
  case Nil
  {
    case 1
    show ?case by simp
  next
    case 2
    show ?case by simp
  }
next
  case (Cons x items)
  obtain item uuid now where x: "x = (item, uuid, now)" by (cases x)
  {
    case 1
    show ?case
    proof (cases "bulk_item_payload sid item")
      case (Inl err)
      with bulk_item_payload_error [OF Inl] show ?thesis
        by (simp add: x)
    next
      case (Inr ctx)
      then show ?thesis
        by (simp add: x case_prod_beta Cons.IH(1) add_context_entry ContextEntry_init_def)
    qed
  next
    case 2
    show ?case
    proof (cases "bulk_item_payload sid item")
      case (Inl err)
      then show ?thesis
        by (simp add: x)
    next
      case (Inr ctx)
      note f = bulk_item_payload_fields(1,2) [OF Inr]
      from Inr show ?thesis
        by (simp add: x case_prod_beta Cons.IH(2) add_context_bucket add_context_entry f)
    qed
  }
qed

text \<open>
  Claim C6, as the code has it. An item without a \<^verbatim>\<open>type\<close> key that passes the schema
  check is given the type \<^verbatim>\<open>custom\<close>. \<^verbatim>\<open>add_context\<close> is applied once per item, in list
  order, up to the first item that fails the schema check: the session's bucket grows by
  one entry for each item before that one, in order, and the other buckets are untouched.
  When no item fails the check, the response lists one identifier and type per item;
  otherwise the request fails with the validation error and the items from the failing one
  on are not stored.
\<close>

theorem bulk_injection_until_invalid:
  "(map_of item ''type'' = None \<longrightarrow>
      (\<forall>ctx. bulk_item_payload sid item = Inr ctx \<longrightarrow> payload_type ctx = ''custom''))
   \<and> bucket (snd (receive_bulk_context cs default_ttl sid items)) sid
       = bucket cs sid @ map (\<lambda>(item, uuid, now).
           ContextEntry_init (projr (bulk_item_payload sid item)) default_ttl uuid now)
           (takeWhile (\<lambda>x. \<not> isl (bulk_item_payload sid (fst x))) items)
   \<and> (k \<noteq> sid \<longrightarrow> bucket (snd (receive_bulk_context cs default_ttl sid items)) k = bucket cs k)
   \<and> fst (receive_bulk_context cs default_ttl sid items)
       = (if list_all (\<lambda>x. \<not> isl (bulk_item_payload sid (fst x))) items
          then Inr \<lparr>bulk_status = ''accepted'', bulk_session_id = sid,
                    injected_count = int (length items),
                    bulk_items = map (\<lambda>(item, uuid, now).
                        (uuid, payload_type (projr (bulk_item_payload sid item)))) items\<rparr>
          else Inl ValidationError)"
proof (intro conjI impI allI)
  fix ctx
  assume "map_of item ''type'' = None" and "bulk_item_payload sid item = Inr ctx"
  then show "payload_type ctx = ''custom''"
    using bulk_item_payload_fields(3) by blast
next
  obtain r cs' where l: "receive_bulk_loop sid default_ttl items cs [] = (r, cs')"
    by (cases "receive_bulk_loop sid default_ttl items cs []")
  have s: "snd (receive_bulk_context cs default_ttl sid items) = cs'"
    by (cases r) (simp_all add: receive_bulk_context_def l)
  from receive_bulk_loop_eq(2) [of sid default_ttl items cs "[]" sid] l
  show "bucket (snd (receive_bulk_context cs default_ttl sid items)) sid
       = bucket cs sid @ map (\<lambda>(item, uuid, now).
           ContextEntry_init (projr (bulk_item_payload sid item)) default_ttl uuid now)
           (takeWhile (\<lambda>x. \<not> isl (bulk_item_payload sid (fst x))) items)"
    by (simp add: s)
  from receive_bulk_loop_eq(1) [of sid default_ttl items cs "[]"] l
  show "fst (receive_bulk_context cs default_ttl sid items)
       = (if list_all (\<lambda>x. \<not> isl (bulk_item_payload sid (fst x))) items
          then Inr \<lparr>bulk_status = ''accepted'', bulk_session_id = sid,
                    injected_count = int (length items),
                    bulk_items = map (\<lambda>(item, uuid, now).
                        (uuid, payload_type (projr (bulk_item_payload sid item)))) items\<rparr>
          else Inl ValidationError)"
    by (auto simp: receive_bulk_context_def l)
  assume "k \<noteq> sid"
  with receive_bulk_loop_eq(2) [of sid default_ttl items cs "[]" k] l
  show "bucket (snd (receive_bulk_context cs default_ttl sid items)) k = bucket cs k"
    by (simp add: s)
qed

theorem bulk_injection_until_invalid_witness:
  "map_of (fst (sample_items ! 1)) ''type'' = None
   \<and> map_sum id payload_type (bulk_item_payload ''s'' (fst (sample_items ! 1))) = Inr ''custom''
   \<and> list_all (\<lambda>x. \<not> isl (bulk_item_payload ''s'' (fst x))) sample_items
   \<and> map_sum id bulk_items (fst (receive_bulk_context ContextStore_init 1800 ''s'' sample_items))
       = Inr [(''e1'', ''invoice''), (''e2'', ''custom''), (''e3'', ''appointment'')]
   \<and> map entry_id (bucket (snd (receive_bulk_context ContextStore_init 1800 ''s'' sample_items)) ''s'')
       = [''e1'', ''e2'', ''e3'']
   \<and> ''other'' \<noteq> ''s''
   \<and> bucket (snd (receive_bulk_context ContextStore_init 1800 ''s'' sample_items)) ''other'' = []
   \<and> \<not> list_all (\<lambda>x. \<not> isl (bulk_item_payload ''s'' (fst x))) sample_items_invalid
   \<and> fst (receive_bulk_context ContextStore_init 1800 ''s'' sample_items_invalid)
       = Inl ValidationError
   \<and> map entry_id
        (bucket (snd (receive_bulk_context ContextStore_init 1800 ''s'' sample_items_invalid)) ''s'')
       = [''e1'']"
  using bulk_injection_until_invalid
          [where item = "fst (sample_items ! 1)" and sid = "''s''" and items = sample_items
             and cs = ContextStore_init and default_ttl = 1800 and k = "''other''"]
        bulk_injection_until_invalid
          [where item = "fst (sample_items ! 1)" and sid = "''s''" and items = sample_items_invalid
             and cs = ContextStore_init and default_ttl = 1800 and k = "''other''"]
  by (simp add: sample_items_def sample_items_invalid_def bulk_item_payload_def dict_get_def
        receive_bulk_context_def add_context_def ContextEntry_init_def ContextStore_init_def
        bucket_def Let_def)

text \<open>
  Claim C6, as stated, fails twice. Of three items whose second has no \<^verbatim>\<open>type\<close> key, all
  three are stored, the second as \<^verbatim>\<open>custom\<close>: it is not skipped. And of three items
  whose second has a number for its type, only the first is stored and the request fails:
  the second item does prevent the third from being processed.
\<close>

theorem bulk_missing_type_is_stored:
  "map entry_type
     (bucket (snd (receive_bulk_context ContextStore_init 1800 ''s'' sample_items)) ''s'')
     = [''invoice'', ''custom'', ''appointment'']
   \<and> fst (receive_bulk_context ContextStore_init 1800 ''s'' sample_items_invalid)
       = Inl ValidationError
   \<and> map entry_type
        (bucket (snd (receive_bulk_context ContextStore_init 1800 ''s'' sample_items_invalid)) ''s'')
       = [''invoice'']"
  by (simp add: sample_items_def sample_items_invalid_def bulk_item_payload_def dict_get_def
        receive_bulk_context_def add_context_def ContextEntry_init_def ContextStore_init_def
        bucket_def Let_def)

end
